theory Spec2Isabelle
  imports Main "HOL-Library.Multiset" "HOL-Library.AList"
begin

section \<open>Python values used by the scraper\<close>

text \<open>
  A Python \<open>str\<close> is a sequence of Unicode code points, and the scraper slices and
  compares Cyrillic text, so a string is modelled as the list of its code points.
  ASCII literals of the source are written through \<open>ascii\<close>; the Cyrillic literals
  are written as their code points, with a transliteration beside them.
\<close>

type_synonym str = "nat list"

definition ascii :: "string \<Rightarrow> str" where
  "ascii s = map of_char s"

text \<open>The exceptions the source raises or catches, as values.\<close>

datatype error =
    AttributeError
  | ValueError
  | KeyError
  | IndexError
  | RequestException
  | WebDriverException
  | OtherError

text \<open>\<open>str.isspace\<close> on one code point: the white space that \<open>str.strip()\<close> removes.\<close>

definition isspace :: "nat \<Rightarrow> bool" where
  "isspace c \<longleftrightarrow>
     (9 \<le> c \<and> c \<le> 13) \<or> (28 \<le> c \<and> c \<le> 32) \<or> c = 133 \<or> c = 160 \<or> c = 5760 \<or>
     (8192 \<le> c \<and> c \<le> 8202) \<or> c = 8232 \<or> c = 8233 \<or> c = 8239 \<or> c = 8287 \<or> c = 12288"

definition strip :: "str \<Rightarrow> str" where
  "strip s = rev (dropWhile isspace (rev (dropWhile isspace s)))"

text \<open>\<open>s.split(sep)\<close> for a one-character separator: never the empty list.\<close>

fun str_split :: "nat \<Rightarrow> str \<Rightarrow> str list" where
  "str_split sep [] = [[]]"
| "str_split sep (c # cs) =
     (if c = sep then [] # str_split sep cs
      else (case str_split sep cs of [] \<Rightarrow> [[c]] | w # ws \<Rightarrow> (c # w) # ws))"

text \<open>\<open>sep.join(parts)\<close>.\<close>

fun str_join :: "str \<Rightarrow> str list \<Rightarrow> str" where
  "str_join sep [] = []"
| "str_join sep [p] = p"
| "str_join sep (p # q # ps) = p @ sep @ str_join sep (q # ps)"

section \<open>The dataset schema (module constants, lines 34-90)\<close>

text \<open>
  The 26 source-language column names, in the order of the source's \<open>columns\<close> list.
  Each is the list of the code points of the literal; the comment gives its
  transliteration, and the constant is named after the English column of the same
  position.
\<close>

definition col_Make :: str where \<comment> \<open>Marka\<close>
  "col_Make = [1052, 1072, 1088, 1082, 1072]"

definition col_Model :: str where \<comment> \<open>Model\<close>
  "col_Model = [1052, 1086, 1076, 1077, 1083]"

definition col_Body_type :: str where \<comment> \<open>Kategoriya\<close>
  "col_Body_type = [1050, 1072, 1090, 1077, 1075, 1086, 1088, 1080, 1103]"

definition col_Production_date :: str where \<comment> \<open>Data na proizvodstvo\<close>
  "col_Production_date = [1044, 1072, 1090, 1072, 32, 1085, 1072, 32, 1087, 1088, 1086, 1080,
     1079, 1074, 1086, 1076, 1089, 1090, 1074, 1086]"

definition col_Engine_type :: str where \<comment> \<open>Tip dvigatel\<close>
  "col_Engine_type = [1058, 1080, 1087, 32, 1076, 1074, 1080, 1075, 1072, 1090, 1077, 1083]"

definition col_Transmission :: str where \<comment> \<open>Skorostna kutiya\<close>
  "col_Transmission = [1057, 1082, 1086, 1088, 1086, 1089, 1090, 1085, 1072, 32, 1082, 1091,
     1090, 1080, 1103]"

definition col_Displacement_cc :: str where \<comment> \<open>Kubatura [kub.sm]\<close>
  "col_Displacement_cc = [1050, 1091, 1073, 1072, 1090, 1091, 1088, 1072, 32, 91, 1082, 1091,
     1073, 46, 1089, 1084, 93]"

definition col_Power :: str where \<comment> \<open>Moshtnost\<close>
  "col_Power = [1052, 1086, 1097, 1085, 1086, 1089, 1090]"

definition col_Euro_standard :: str where \<comment> \<open>Evrostandart\<close>
  "col_Euro_standard = [1045, 1074, 1088, 1086, 1089, 1090, 1072, 1085, 1076, 1072, 1088, 1090]"

definition col_Mileage_km :: str where \<comment> \<open>Probeg [km]\<close>
  "col_Mileage_km = [1055, 1088, 1086, 1073, 1077, 1075, 32, 91, 1082, 1084, 93]"

definition col_WLTP_mileage :: str where \<comment> \<open>Probeg s edno zarezhdane (WLTP) [km]\<close>
  "col_WLTP_mileage = [1055, 1088, 1086, 1073, 1077, 1075, 32, 1089, 32, 1077, 1076, 1085, 1086,
     32, 1079, 1072, 1088, 1077, 1078, 1076, 1072, 1085, 1077, 32, 40, 87, 76, 84, 80, 41, 32,
     91, 1082, 1084, 93]"

definition col_Battery_capacity_kWh :: str where \<comment> \<open>Kapatsitet na bateriyata [kWh]\<close>
  "col_Battery_capacity_kWh = [1050, 1072, 1087, 1072, 1094, 1080, 1090, 1077, 1090, 32, 1085,
     1072, 32, 1073, 1072, 1090, 1077, 1088, 1080, 1103, 1090, 1072, 32, 91, 107, 87, 104, 93]"

definition col_Color :: str where \<comment> \<open>Tsvyat\<close>
  "col_Color = [1062, 1074, 1103, 1090]"

definition col_VIN_number :: str where \<comment> \<open>VIN nomer\<close>
  "col_VIN_number = [86, 73, 78, 32, 1085, 1086, 1084, 1077, 1088]"

definition col_Price_BGN_EUR :: str where \<comment> \<open>Tsena [lv./EUR]\<close>
  "col_Price_BGN_EUR = [1062, 1077, 1085, 1072, 32, 91, 1083, 1074, 46, 47, 69, 85, 82, 93]"

definition col_Safety_features :: str where \<comment> \<open>Bezopasnost\<close>
  "col_Safety_features = [1041, 1077, 1079, 1086, 1087, 1072, 1089, 1085, 1086, 1089, 1090]"

definition col_Comfort_features :: str where \<comment> \<open>Komfort\<close>
  "col_Comfort_features = [1050, 1086, 1084, 1092, 1086, 1088, 1090]"

definition col_Other_features :: str where \<comment> \<open>Drugi\<close>
  "col_Other_features = [1044, 1088, 1091, 1075, 1080]"

definition col_Exterior_features :: str where \<comment> \<open>Eksterior\<close>
  "col_Exterior_features = [1045, 1082, 1089, 1090, 1077, 1088, 1080, 1086, 1088]"

definition col_Protection_features :: str where \<comment> \<open>Zashtita\<close>
  "col_Protection_features = [1047, 1072, 1097, 1080, 1090, 1072]"

definition col_Interior_features :: str where \<comment> \<open>Interior\<close>
  "col_Interior_features = [1048, 1085, 1090, 1077, 1088, 1080, 1086, 1088]"

definition col_Specialized_features :: str where \<comment> \<open>Spetsializirani\<close>
  "col_Specialized_features = [1057, 1087, 1077, 1094, 1080, 1072, 1083, 1080, 1079, 1080, 1088,
     1072, 1085, 1080]"

definition col_Region_Outside_country :: str where \<comment> \<open>Oblast [Izvan stranata]\<close>
  "col_Region_Outside_country = [1054, 1073, 1083, 1072, 1089, 1090, 32, 91, 1048, 1079, 1074,
     1098, 1085, 32, 1089, 1090, 1088, 1072, 1085, 1072, 1090, 1072, 93]"

definition col_City_Country :: str where \<comment> \<open>Naseleno myasto [Darzhava]\<close>
  "col_City_Country = [1053, 1072, 1089, 1077, 1083, 1077, 1085, 1086, 32, 1084, 1103, 1089,
     1090, 1086, 32, 91, 1044, 1098, 1088, 1078, 1072, 1074, 1072, 93]"

definition col_Views :: str where \<comment> \<open>Poseshteniya\<close>
  "col_Views = [1055, 1086, 1089, 1077, 1097, 1077, 1085, 1080, 1103]"

definition col_Title :: str where \<comment> \<open>Zaglavie\<close>
  "col_Title = [1047, 1072, 1075, 1083, 1072, 1074, 1080, 1077]"

lemmas column_names =
  col_Make_def col_Model_def col_Body_type_def col_Production_date_def col_Engine_type_def
     col_Transmission_def col_Displacement_cc_def col_Power_def col_Euro_standard_def
     col_Mileage_km_def col_WLTP_mileage_def col_Battery_capacity_kWh_def col_Color_def
     col_VIN_number_def col_Price_BGN_EUR_def col_Safety_features_def col_Comfort_features_def
     col_Other_features_def col_Exterior_features_def col_Protection_features_def
     col_Interior_features_def col_Specialized_features_def col_Region_Outside_country_def
     col_City_Country_def col_Views_def col_Title_def

definition columns :: "str list" where
  "columns = [col_Make, col_Model, col_Body_type, col_Production_date, col_Engine_type,
     col_Transmission, col_Displacement_cc, col_Power, col_Euro_standard, col_Mileage_km,
     col_WLTP_mileage, col_Battery_capacity_kWh, col_Color, col_VIN_number, col_Price_BGN_EUR,
     col_Safety_features, col_Comfort_features, col_Other_features, col_Exterior_features,
     col_Protection_features, col_Interior_features, col_Specialized_features,
     col_Region_Outside_country, col_City_Country, col_Views, col_Title]"

definition english_columns :: "str list" where
  "english_columns =
   [ascii ''Make'', ascii ''Model'', ascii ''Body type'', ascii ''Production date'',
    ascii ''Engine type'', ascii ''Transmission'', ascii ''Displacement [cc]'',
    ascii ''Power'', ascii ''Euro standard'', ascii ''Mileage [km]'',
    ascii ''WLTP mileage'', ascii ''Battery capacity [kWh]'', ascii ''Color'',
    ascii ''VIN number'', ascii ''Price [BGN/EUR]'', ascii ''Safety features'',
    ascii ''Comfort features'', ascii ''Other features'', ascii ''Exterior features'',
    ascii ''Protection features'', ascii ''Interior features'',
    ascii ''Specialized features'', ascii ''Region (Outside country)'',
    ascii ''City (Country)'', ascii ''Views'', ascii ''Title'']"

section \<open>Work Distributor (\<open>main\<close>, lines 271-279)\<close>

definition NUM_PROCESSES :: nat where
  "NUM_PROCESSES = 8"

text \<open>
  \<open>random.shuffle(x)\<close>: for \<open>i\<close> from \<open>len(x) - 1\<close> down to \<open>1\<close>, draw
  \<open>j = randbelow(i + 1)\<close> and exchange \<open>x[i]\<close> and \<open>x[j]\<close>. The random source is the
  parameter \<open>randbelow\<close>; the draw made at index \<open>i\<close> is reduced into \<open>0..i\<close>.
\<close>

fun shuffle_loop :: "(nat \<Rightarrow> nat) \<Rightarrow> nat \<Rightarrow> 'a list \<Rightarrow> 'a list" where
  "shuffle_loop randbelow 0 x = x"
| "shuffle_loop randbelow (Suc i) x =
     (let j = randbelow (Suc i) mod (Suc i + 1)
      in shuffle_loop randbelow i (x[Suc i := x ! j, j := x ! Suc i]))"

definition shuffle :: "(nat \<Rightarrow> nat) \<Rightarrow> 'a list \<Rightarrow> 'a list" where
  "shuffle randbelow x = shuffle_loop randbelow (length x - 1) x"

text \<open>\<open>chunk_size = len(all_models) // (NUM_PROCESSES * 10)\<close>, for any worker count.\<close>

definition chunk_size :: "nat \<Rightarrow> nat \<Rightarrow> nat" where
  "chunk_size num_processes n = n div (num_processes * 10)"

text \<open>\<open>range(i, n, k)\<close> as a list; the caller checks \<open>k = 0\<close>, where Python raises.\<close>

function range_from :: "nat \<Rightarrow> nat \<Rightarrow> nat \<Rightarrow> nat list" where
  "range_from i n k = (if k = 0 \<or> n \<le> i then [] else i # range_from (i + k) n k)"
  by pat_completeness auto
termination
  by (relation "measure (\<lambda>(i, n, k). n - i)") auto

declare range_from.simps [simp del]

text \<open>\<open>xs[i:j]\<close> for \<open>0 \<le> i \<le> j\<close>: Python clamps the slice at the end of the list.\<close>

definition slice :: "'a list \<Rightarrow> nat \<Rightarrow> nat \<Rightarrow> 'a list" where
  "slice xs i j = take (j - i) (drop i xs)"

text \<open>
  \<open>[all_models[i:i + chunk_size] for i in range(0, len(all_models), chunk_size)]\<close>;
  \<open>range\<close> raises \<open>ValueError\<close> on a zero step.
\<close>

definition model_subsets :: "nat \<Rightarrow> 'a list \<Rightarrow> error + 'a list list" where
  "model_subsets num_processes all_models =
     (let k = chunk_size num_processes (length all_models)
      in if k = 0 then Inl ValueError
         else Inr (map (\<lambda>i. slice all_models i (i + k)) (range_from 0 (length all_models) k)))"

text \<open>Shuffle first, then partition: what \<open>main\<close> hands to the pool.\<close>

definition work_distributor :: "(nat \<Rightarrow> nat) \<Rightarrow> nat \<Rightarrow> 'a list \<Rightarrow> error + 'a list list" where
  "work_distributor randbelow num_processes all_models =
     model_subsets num_processes (shuffle randbelow all_models)"

section \<open>Parsed documents (the document-parsing collaborator)\<close>

text \<open>
  A document is the tree BeautifulSoup builds: text nodes and tags. Of a tag the scraper
  reads the name, the \<open>class\<close> attribute, the \<open>id\<close>, the \<open>href\<close> and the children. The
  \<open>class\<close> attribute is multi-valued: the parser splits it at white space into a list of
  values, so \<open>tag['class']\<close> is a list. An attribute that the tag does not carry is
  \<open>None\<close>.
\<close>

datatype node =
    NavigableString str
  | Tag str "str list option" "str option" "str option" "node list"

text \<open>The top-level nodes of a document.\<close>

type_synonym soup = "node list"

text \<open>
  An element found in a document: the node together with the nodes that follow it under
  the same parent, which is what \<open>find_next_sibling\<close> walks.
\<close>

type_synonym element = "node \<times> node list"

fun is_tag :: "node \<Rightarrow> bool" where
  "is_tag (NavigableString s) = False"
| "is_tag (Tag nm cls ident href kids) = True"

fun tag_name :: "node \<Rightarrow> str" where
  "tag_name (NavigableString s) = []"
| "tag_name (Tag nm cls ident href kids) = nm"

fun class_of :: "node \<Rightarrow> str list option" where
  "class_of (NavigableString s) = None"
| "class_of (Tag nm cls ident href kids) = cls"

fun id_of :: "node \<Rightarrow> str option" where
  "id_of (NavigableString s) = None"
| "id_of (Tag nm cls ident href kids) = ident"

fun href_of :: "node \<Rightarrow> str option" where
  "href_of (NavigableString s) = None"
| "href_of (Tag nm cls ident href kids) = href"

fun children :: "node \<Rightarrow> node list" where
  "children (NavigableString s) = []"
| "children (Tag nm cls ident href kids) = kids"

text \<open>\<open>.text\<close>: all the strings below the node, concatenated in document order.\<close>

fun get_text :: "node \<Rightarrow> str" where
  "get_text (NavigableString s) = s"
| "get_text (Tag nm cls ident href kids) = concat (map get_text kids)"

text \<open>The tags below a list of nodes, in document order, each with its later siblings.\<close>

fun descendants :: "node list \<Rightarrow> element list" where
  "descendants [] = []"
| "descendants (NavigableString s # rest) = descendants rest"
| "descendants (Tag nm cls ident href kids # rest) =
     (Tag nm cls ident href kids, rest) # descendants kids @ descendants rest"

text \<open>
  A search by \<open>class_=c\<close> on the multi-valued attribute: the tag matches when \<open>c\<close> is one
  of its class values, or when \<open>c\<close> is the whole attribute, the values joined by single
  blanks. A tag without the attribute does not match.
\<close>

definition class_matches :: "str \<Rightarrow> str list option \<Rightarrow> bool" where
  "class_matches c cls =
     (case cls of None \<Rightarrow> False | Some vs \<Rightarrow> c \<in> set vs \<or> c = str_join (ascii '' '') vs)"

text \<open>
  The filter of \<open>find(name, class_=c, id=i)\<close>; an argument that is not given is \<open>None\<close>.
  Only tags match.
\<close>

definition matches :: "str option \<Rightarrow> str option \<Rightarrow> str option \<Rightarrow> node \<Rightarrow> bool" where
  "matches nm c ident n =
     (is_tag n
      \<and> (case nm of None \<Rightarrow> True | Some wanted \<Rightarrow> tag_name n = wanted)
      \<and> (case c of None \<Rightarrow> True | Some wanted \<Rightarrow> class_matches wanted (class_of n))
      \<and> (case ident of None \<Rightarrow> True | Some wanted \<Rightarrow> id_of n = Some wanted))"

definition find_all :: "(node \<Rightarrow> bool) \<Rightarrow> node list \<Rightarrow> element list" where
  "find_all P doc = filter (\<lambda>e. P (fst e)) (descendants doc)"

text \<open>\<open>find\<close>: the first match in document order, \<open>None\<close> when there is none.\<close>

definition find_one :: "(node \<Rightarrow> bool) \<Rightarrow> node list \<Rightarrow> element option" where
  "find_one P doc = (case find_all P doc of [] \<Rightarrow> None | e # es \<Rightarrow> Some e)"

fun next_sibling_where :: "(node \<Rightarrow> bool) \<Rightarrow> node list \<Rightarrow> element option" where
  "next_sibling_where P [] = None"
| "next_sibling_where P (n # rest) =
     (if is_tag n \<and> P n then Some (n, rest) else next_sibling_where P rest)"

definition find_next_sibling :: "(node \<Rightarrow> bool) \<Rightarrow> element \<Rightarrow> element option" where
  "find_next_sibling P e = next_sibling_where P (snd e)"

text \<open>The literals the scraper searches for.\<close>

definition any_tag :: "node \<Rightarrow> bool" where
  "any_tag = matches None None None"

definition tag_div :: "node \<Rightarrow> bool" where
  "tag_div = matches (Some (ascii ''div'')) None None"

text \<open>
  What the HTML parser can build: it splits a \<open>class\<close> attribute at white space, so every
  class value of every tag is non-empty and free of white space.
\<close>

fun parser_built :: "node \<Rightarrow> bool" where
  "parser_built (NavigableString s) = True"
| "parser_built (Tag nm cls ident href kids) =
     ((case cls of
         None \<Rightarrow> True
       | Some vs \<Rightarrow> list_all (\<lambda>v. v \<noteq> [] \<and> \<not> list_ex isspace v) vs)
      \<and> list_all parser_built kids)"

section \<open>Page Fetcher (\<open>get_page\<close>, lines 103-115)\<close>

text \<open>
  What one \<open>requests.get\<close> followed by the parse gives: a parsed page, or an exception.
\<close>

datatype response = Page soup | Raises error

text \<open>
  The outside world. \<open>http n url\<close> is the outcome of a request for \<open>url\<close> made after \<open>n\<close>
  earlier requests; \<open>browser n make model\<close> is the outcome of the browser session's
  \<open>go_to_model_offers\<close> made after \<open>n\<close> earlier ones: an exception, or the URL the browser
  ends on.
\<close>

record env =
  http :: "nat \<Rightarrow> str \<Rightarrow> response"
  browser :: "nat \<Rightarrow> str \<Rightarrow> str \<Rightarrow> error + str"

text \<open>The effects so far: the URLs requested and the combinations navigated to, in order.\<close>

record world =
  requests :: "str list"
  navigations :: "(str \<times> str) list"

text \<open>
  \<open>for i in range(3)\<close>: request \<open>'https:' + url\<close>; return the parsed page of the first
  request that succeeds; on \<open>RequestException\<close> go on with the next \<open>i\<close>; any other
  exception propagates. When the loop ends the function returns nothing, that is \<open>None\<close>.
\<close>

fun get_page_loop :: "env \<Rightarrow> str \<Rightarrow> nat list \<Rightarrow> world \<Rightarrow> (error + soup option) \<times> world" where
  "get_page_loop e url [] w = (Inr None, w)"
| "get_page_loop e url (i # attempts) w =
     (let target = ascii ''https:'' @ url;
          w' = w\<lparr>requests := requests w @ [target]\<rparr>
      in case http e (length (requests w)) target of
           Page doc \<Rightarrow> (Inr (Some doc), w')
         | Raises err \<Rightarrow>
             if err = RequestException then get_page_loop e url attempts w'
             else (Inl err, w'))"

definition get_page :: "env \<Rightarrow> str \<Rightarrow> world \<Rightarrow> (error + soup option) \<times> world" where
  "get_page e url w = get_page_loop e url [0, 1, 2] w"

section \<open>Record Extractor (lines 118-219)\<close>

text \<open>
  A value of a record is a string or Python's \<open>None\<close>. \<open>parsed_data\<close> is a dict from
  column names to values, kept as an association list with one entry per key.
\<close>

type_synonym cell = "str option"
type_synonym dict = "(str \<times> cell) list"

definition setitem :: "str \<Rightarrow> cell \<Rightarrow> dict \<Rightarrow> dict" where
  "setitem k v d = AList.update k v d"

definition keys :: "dict \<Rightarrow> str set" where
  "keys d = fst ` set d"

text \<open>\<open>target.update(dict(zip(ks, vs)))\<close>: a later pair with the same key wins.\<close>

definition dict_update :: "dict \<Rightarrow> (str \<times> str) list \<Rightarrow> dict" where
  "dict_update target pairs = fold (\<lambda>(k, v) d. setitem k (Some v) d) pairs target"

text \<open>\<open>is_data = lambda index, el: index % 2 != 0\<close>.\<close>

definition is_data :: "nat \<Rightarrow> bool" where
  "is_data index \<longleftrightarrow> index mod 2 \<noteq> 0"

text \<open>
  \<open>parse_main_car_details\<close>. \<open>offer_soup.find('ul', class_='dilarData').find_all('li')\<close>
  raises \<open>AttributeError\<close> when the document is \<open>None\<close> or has no such list; the function
  turns that into \<open>ValueError\<close>. Otherwise the list items at even positions are the
  labels and those at odd positions the values.
\<close>

definition parse_main_car_details :: "soup option \<Rightarrow> dict \<Rightarrow> error + dict" where
  "parse_main_car_details offer_soup target =
     (case offer_soup of
        None \<Rightarrow> Inl ValueError
      | Some doc \<Rightarrow>
          (case find_one (matches (Some (ascii ''ul'')) (Some (ascii ''dilarData'')) None) doc of
             None \<Rightarrow> Inl ValueError
           | Some ul \<Rightarrow>
               (let main_car_details_html_list =
                      map fst (find_all (matches (Some (ascii ''li'')) None None) (children (fst ul)));
                    main_data = enumerate 0 main_car_details_html_list;
                    available_columns = [get_text el. (index, el) \<leftarrow> main_data, \<not> is_data index];
                    available_data = [get_text el. (index, el) \<leftarrow> main_data, is_data index]
                in Inr (dict_update target (zip available_columns available_data)))))"

text \<open>
  The loop body of \<open>parse_additional_car_features\<close> that collects one group:
  \<open>while feature_div is not None and feature_div.name != 'label'\<close>, append
  \<open>feature_div.text[2:].strip()\<close> and move to \<open>feature_div.find_next_sibling()\<close>.
\<close>

lemma next_sibling_where_shorter:
  "next_sibling_where P sibs = Some (m, rest) \<Longrightarrow> length rest < length sibs"
  by (induction sibs) (auto split: if_splits)

function collect_features :: "element option \<Rightarrow> str list" where
  "collect_features None = []"
| "collect_features (Some feature_div) =
     (if tag_name (fst feature_div) = ascii ''label'' then []
      else strip (drop 2 (get_text (fst feature_div)))
             # collect_features (find_next_sibling any_tag feature_div))"
  by pat_completeness auto
termination
proof (relation "measure (\<lambda>e. case e of None \<Rightarrow> 0 | Some d \<Rightarrow> Suc (length (snd d)))")
  show "wf (measure (\<lambda>e. case e of None \<Rightarrow> 0 | Some d \<Rightarrow> Suc (length (snd d))))"
    by simp
next
  fix feature_div :: element
  assume "tag_name (fst feature_div) \<noteq> ascii ''label''"
  show "(find_next_sibling any_tag feature_div, Some feature_div)
          \<in> measure (\<lambda>e. case e of None \<Rightarrow> 0 | Some d \<Rightarrow> Suc (length (snd d)))"
  proof (cases "find_next_sibling any_tag feature_div")
    case None
    then show ?thesis by simp
  next
    case (Some d)
    then have "next_sibling_where any_tag (snd feature_div) = Some (fst d, snd d)"
      by (simp add: find_next_sibling_def)
    from next_sibling_where_shorter [OF this] Some show ?thesis by simp
  qed
qed

declare collect_features.simps(2) [simp del]

text \<open>
  \<open>parse_additional_car_features\<close>, one label after the other. \<open>next_sibling.name\<close>
  raises \<open>AttributeError\<close> when the label has no next sibling tag.
\<close>

definition feature_start :: "element \<Rightarrow> error + element option" where
  "feature_start label =
     (case find_next_sibling any_tag label of
        None \<Rightarrow> Inl AttributeError
      | Some next_sibling \<Rightarrow>
          (let feature_div =
                 (if tag_name (fst next_sibling) \<noteq> ascii ''div''
                  then find_one tag_div (children (fst next_sibling))
                  else Some next_sibling)
           in Inr (if feature_div = None then find_next_sibling tag_div label else feature_div)))"

fun features_loop :: "element list \<Rightarrow> dict \<Rightarrow> error + dict" where
  "features_loop [] target = Inr target"
| "features_loop (label # labels) target =
     (case feature_start label of
        Inl err \<Rightarrow> Inl err
      | Inr feature_div \<Rightarrow>
          (let feature_list = collect_features feature_div
           in features_loop labels
                (setitem (get_text (fst label)) (Some (str_join (ascii '', '') feature_list)) target)))"

definition parse_additional_car_features :: "soup option \<Rightarrow> dict \<Rightarrow> error + dict" where
  "parse_additional_car_features offer_soup target =
     (case offer_soup of
        None \<Rightarrow> Inl AttributeError
      | Some doc \<Rightarrow>
          features_loop
            (find_all (matches (Some (ascii ''label'')) (Some (ascii ''extra_cat'')) None) doc)
            target)"

text \<open>\<open>offer_soup.find(...).text\<close>: \<open>AttributeError\<close> when nothing is found.\<close>

definition find_text :: "soup option \<Rightarrow> (node \<Rightarrow> bool) \<Rightarrow> error + str" where
  "find_text offer_soup P =
     (case offer_soup of
        None \<Rightarrow> Inl AttributeError
      | Some doc \<Rightarrow>
          (case find_one P doc of None \<Rightarrow> Inl AttributeError | Some e \<Rightarrow> Inr (get_text (fst e))))"

text \<open>
  Lines 164-165: every column that is not yet a key of \<open>parsed_data\<close> is set to \<open>None\<close>.
\<close>

definition fill_missing_columns :: "dict \<Rightarrow> dict" where
  "fill_missing_columns parsed_data =
     fold (\<lambda>missing_column d. setitem missing_column None d)
       [col. col \<leftarrow> columns, col \<notin> keys parsed_data] parsed_data"

text \<open>
  Lines 138-165 of \<open>scrape_offer_data\<close>: the fields added to \<open>parsed_data\<close> once the main
  attributes are parsed. Title, price and view count raise \<open>AttributeError\<close> when their
  node is missing; a missing address node leaves region and city \<open>None\<close>.
\<close>

definition fill_parsed_data :: "str \<Rightarrow> str \<Rightarrow> soup option \<Rightarrow> dict \<Rightarrow> error + dict" where
  "fill_parsed_data make' model offer_soup parsed_data =
     (case find_text offer_soup (matches (Some (ascii ''h1'')) None None) of
        Inl err \<Rightarrow> Inl err
      | Inr title \<Rightarrow>
     (let d1 = setitem col_Title (Some (strip title)) parsed_data;
          d2 = setitem col_Make (Some (strip make')) d1;
          d3 = setitem col_Model (Some (strip model)) d2
      in case find_text offer_soup (matches (Some (ascii ''span'')) None (Some (ascii ''details_price''))) of
        Inl err \<Rightarrow> Inl err
      | Inr price \<Rightarrow>
     (let d4 = setitem col_Price_BGN_EUR (Some (strip price)) d3;
          region_city_data =
            (case find_text offer_soup (matches (Some (ascii ''div'')) (Some (ascii ''adress'')) None) of
               Inl err \<Rightarrow> []
             | Inr address \<Rightarrow> str_split 44 address);
          d5 = setitem col_Region_Outside_country
                 (if length region_city_data > 0 then Some (strip (region_city_data ! 0)) else None) d4;
          d6 = setitem col_City_Country
                 (if length region_city_data > 1 then Some (strip (region_city_data ! 1)) else None) d5
      in case find_text offer_soup (matches (Some (ascii ''span'')) (Some (ascii ''advact'')) None) of
        Inl err \<Rightarrow> Inl err
      | Inr views \<Rightarrow>
          (case parse_additional_car_features offer_soup (setitem col_Views (Some views) d6) of
             Inl err \<Rightarrow> Inl err
           | Inr d7 \<Rightarrow> Inr (fill_missing_columns d7)))))"

text \<open>
  The worker's in-memory batch: a frame with the 26 columns, one row per record.
  \<open>data.loc[len(data)] = parsed_data\<close> appends the dict as a row aligned to the frame's
  columns; \<open>value_at\<close> reads a column's value (no value for a key that is absent).
\<close>

type_synonym frame = "cell list list"

definition value_at :: "dict \<Rightarrow> str \<Rightarrow> cell" where
  "value_at d k = (case map_of d k of None \<Rightarrow> None | Some v \<Rightarrow> v)"

definition append_row :: "frame \<Rightarrow> dict \<Rightarrow> frame" where
  "append_row data parsed_data = data @ [map (value_at parsed_data) columns]"

text \<open>
  \<open>scrape_offer_data\<close>: fetch the offer page, parse the main attributes (on
  \<open>ValueError\<close> return without a record), add the other fields and append the row.
  The result is the exception that leaves the function, if any, the batch and the world.
  (The parameter \<open>make\<close> is written \<open>make'\<close>: \<open>make\<close> is a constant of every record type.)
\<close>

definition scrape_offer_data ::
  "env \<Rightarrow> str \<Rightarrow> str \<Rightarrow> str \<Rightarrow> frame \<times> world \<Rightarrow> error option \<times> frame \<times> world" where
  "scrape_offer_data e make' model offer_url st =
     (case get_page e offer_url (snd st) of
        (Inl err, w1) \<Rightarrow> (Some err, fst st, w1)
      | (Inr offer_soup, w1) \<Rightarrow>
          (case parse_main_car_details offer_soup [] of
             Inl err \<Rightarrow> (if err = ValueError then None else Some err, fst st, w1)
           | Inr parsed_data \<Rightarrow>
               (case fill_parsed_data make' model offer_soup parsed_data of
                  Inl err \<Rightarrow> (Some err, fst st, w1)
                | Inr record \<Rightarrow> (None, append_row (fst st) record, w1))))"

text \<open>
  Two sets used to state what the keys of a record are: the texts of the feature-group
  labels of the page, and the seven columns that lines 138-158 always set.
\<close>

definition feature_group_labels :: "soup option \<Rightarrow> str set" where
  "feature_group_labels offer_soup =
     (case offer_soup of
        None \<Rightarrow> {}
      | Some doc \<Rightarrow>
          (\<lambda>l. get_text (fst l)) `
            set (find_all (matches (Some (ascii ''label'')) (Some (ascii ''extra_cat'')) None) doc))"

definition fixed_fields :: "str set" where
  "fixed_fields =
     {col_Title, col_Make, col_Model, col_Price_BGN_EUR, col_Region_Outside_country,
      col_City_Country, col_Views}"

section \<open>Listing Paginator (\<open>has_next_page\<close>, \<open>is_offer_link\<close>, \<open>scrape_model\<close>)\<close>

definition startswith :: "str \<Rightarrow> str \<Rightarrow> bool" where
  "startswith s p \<longleftrightarrow> take (length p) s = p"

text \<open>
  \<open>is_offer_link\<close>: the tag has an \<open>href\<close> that starts with the offer prefix and a
  \<open>class\<close> attribute with the value \<open>photoLink\<close> among its values.
\<close>

definition is_offer_link :: "node \<Rightarrow> bool" where
  "is_offer_link tag =
     (case href_of tag of
        None \<Rightarrow> False
      | Some h \<Rightarrow>
          startswith h (ascii ''//www.mobile.bg/pcgi/mobile.cgi?act=4&'')
          \<and> (case class_of tag of None \<Rightarrow> False | Some cls \<Rightarrow> ascii ''photoLink'' \<in> set cls))"

text \<open>
  \<open>has_next_page\<close>. The literal of the class search is \<open>'saveSlink '\<close>, with the blank
  at its end, as in the source. On \<open>None\<close> (no current-page indicator was found) the
  attribute access raises \<open>AttributeError\<close>.
\<close>

definition page_link :: "node \<Rightarrow> bool" where
  "page_link = matches (Some (ascii ''a'')) (Some (ascii ''saveSlink '')) None"

definition has_next_page :: "element option \<Rightarrow> error + bool" where
  "has_next_page current_page_element =
     (case current_page_element of
        None \<Rightarrow> Inl AttributeError
      | Some el \<Rightarrow>
          Inr (find_next_sibling any_tag el \<noteq> None \<and> find_next_sibling page_link el \<noteq> None))"

text \<open>\<open>current_page_element.find_next_sibling()['href']\<close>.\<close>

definition next_page_href :: "element option \<Rightarrow> error + str" where
  "next_page_href current_page_element =
     (case current_page_element of
        None \<Rightarrow> Inl AttributeError
      | Some el \<Rightarrow>
          (case find_next_sibling any_tag el of
             None \<Rightarrow> Inl AttributeError
           | Some nxt \<Rightarrow> (case href_of (fst nxt) of None \<Rightarrow> Inl KeyError | Some h \<Rightarrow> Inr h)))"

text \<open>\<open>for link in offer_links: scrape_offer_data(make, model, link, process_df)\<close>.\<close>

fun scrape_offers ::
  "env \<Rightarrow> str \<Rightarrow> str \<Rightarrow> str list \<Rightarrow> frame \<times> world \<Rightarrow> error option \<times> frame \<times> world" where
  "scrape_offers e make' model [] st = (None, st)"
| "scrape_offers e make' model (link # offer_links) st =
     (case scrape_offer_data e make' model link st of
        (Some err, st1) \<Rightarrow> (Some err, st1)
      | (None, st1) \<Rightarrow> scrape_offers e make' model offer_links st1)"

text \<open>
  The \<open>while True\<close> loop of \<open>scrape_model\<close> over the result pages. It ends when
  \<open>has_next_page\<close> is false or an exception leaves it; a run that never ends is \<open>None\<close>.
\<close>

partial_function (option) pages_loop ::
  "env \<Rightarrow> str \<Rightarrow> str \<Rightarrow> soup option \<Rightarrow> frame \<times> world \<Rightarrow> (error option \<times> frame \<times> world) option" where
  "pages_loop e make' model current_page_soup st =
     (case current_page_soup of
        None \<Rightarrow> Some (Some AttributeError, st)
      | Some doc \<Rightarrow>
          (let offer_links = List.map_filter (\<lambda>tag. href_of (fst tag)) (find_all is_offer_link doc);
               r = scrape_offers e make' model offer_links st
           in case fst r of
                Some err \<Rightarrow> Some r
              | None \<Rightarrow>
                  (let current_page_element =
                         find_one (matches (Some (ascii ''a'')) (Some (ascii ''saveSlink selected'')) None) doc
                   in case has_next_page current_page_element of
                        Inl err \<Rightarrow> Some (Some err, snd r)
                      | Inr has_next \<Rightarrow>
                          if \<not> has_next then Some (None, snd r)
                          else (case next_page_href current_page_element of
                                  Inl err \<Rightarrow> Some (Some err, snd r)
                                | Inr url \<Rightarrow>
                                    (let p = get_page e url (snd (snd r))
                                     in case fst p of
                                          Inl err \<Rightarrow> Some (Some err, fst (snd r), snd p)
                                        | Inr next_soup \<Rightarrow>
                                            pages_loop e make' model next_soup (fst (snd r), snd p))))))"

text \<open>
  \<open>scrape_model\<close>: the browser goes to the offers of the combination (any exception of
  the session leaves the function), the page it ends on is fetched with the leading
  \<open>'https:'\<close> cut off, and the pages are walked.
\<close>

definition scrape_model ::
  "env \<Rightarrow> str \<Rightarrow> str \<Rightarrow> frame \<times> world \<Rightarrow> (error option \<times> frame \<times> world) option" where
  "scrape_model e make' model st =
     (let w = snd st;
          w1 = w\<lparr>navigations := navigations w @ [(make', model)]\<rparr>
      in case browser e (length (navigations w)) make' model of
           Inl err \<Rightarrow> Some (Some err, fst st, w1)
         | Inr current_url \<Rightarrow>
             (let p = get_page e (drop 6 current_url) w1
              in case fst p of
                   Inl err \<Rightarrow> Some (Some err, fst st, snd p)
                 | Inr current_page_soup \<Rightarrow>
                     pages_loop e make' model current_page_soup (fst st, snd p)))"

section \<open>Worker (\<open>scrape_worker\<close>, lines 323-352)\<close>

text \<open>
  The files the scraper writes: a worker's partial file \<open>./temp/partial-<pid>.csv\<close>, the
  file \<open>./output/partial-<pid>.csv\<close> whose existence the worker tests, and the final
  output file. A file is the list of its lines, a line the list of its values.
\<close>

datatype path = TempPartial nat | OutputPartial nat | OutputFile

type_synonym csv = "cell list list"
type_synonym files = "path \<Rightarrow> csv option"

text \<open>\<open>os.path.exists\<close>.\<close>

definition path_exists :: "files \<Rightarrow> path \<Rightarrow> bool" where
  "path_exists fs p \<longleftrightarrow> fs p \<noteq> None"

text \<open>
  \<open>df.to_csv(p, index=False, mode='a', header=h)\<close> for a frame with the source columns:
  the header line when \<open>h\<close> holds, then the rows, after what the file already holds.
\<close>

definition to_csv_append :: "frame \<Rightarrow> path \<Rightarrow> bool \<Rightarrow> files \<Rightarrow> files" where
  "to_csv_append df p header fs =
     fs(p \<mapsto> (case fs p of None \<Rightarrow> [] | Some old \<Rightarrow> old)
               @ (if header then [map Some columns] else []) @ df)"

record worker_state =
  process_df :: frame
  files :: files
  outside :: world

text \<open>
  \<open>for i in range(3)\<close> around one combination: after an attempt that raises nothing the
  batch is written to \<open>./temp/partial-<pid>.csv\<close>, with a header when
  \<open>./output/partial-<pid>.csv\<close> does not exist, the batch is replaced by an empty frame
  and the loop is left; \<open>WebDriverException\<close> is logged and the next \<open>i\<close> follows; any
  other exception leaves the worker.
\<close>

fun retry_loop ::
  "env \<Rightarrow> nat \<Rightarrow> str \<Rightarrow> str \<Rightarrow> nat list \<Rightarrow> worker_state \<Rightarrow> (error option \<times> worker_state) option" where
  "retry_loop e pid make' model [] s = Some (None, s)"
| "retry_loop e pid make' model (i # attempts) s =
     (case scrape_model e make' model (process_df s, outside s) of
        None \<Rightarrow> None
      | Some (None, df, w) \<Rightarrow>
          Some (None,
            \<lparr>process_df = [],
             files = to_csv_append df (TempPartial pid)
                       (\<not> path_exists (files s) (OutputPartial pid)) (files s),
             outside = w\<rparr>)
      | Some (Some err, df, w) \<Rightarrow>
          if err = WebDriverException
          then retry_loop e pid make' model attempts \<lparr>process_df = df, files = files s, outside = w\<rparr>
          else Some (Some err, \<lparr>process_df = df, files = files s, outside = w\<rparr>))"

text \<open>\<open>for (make, model) in models\<close>.\<close>

fun models_loop ::
  "env \<Rightarrow> nat \<Rightarrow> (str \<times> str) list \<Rightarrow> worker_state \<Rightarrow> (error option \<times> worker_state) option" where
  "models_loop e pid [] s = Some (None, s)"
| "models_loop e pid (m # models) s =
     (case retry_loop e pid (fst m) (snd m) [0, 1, 2] s of
        None \<Rightarrow> None
      | Some (Some err, s1) \<Rightarrow> Some (Some err, s1)
      | Some (None, s1) \<Rightarrow> models_loop e pid models s1)"

text \<open>\<open>scrape_worker\<close>, from the empty batch of line 327.\<close>

definition scrape_worker ::
  "env \<Rightarrow> nat \<Rightarrow> (str \<times> str) list \<Rightarrow> files \<Rightarrow> world \<Rightarrow> (error option \<times> worker_state) option" where
  "scrape_worker e pid models fs w =
     models_loop e pid models \<lparr>process_df = [], files = fs, outside = w\<rparr>"

text \<open>
  Used to state the retry policy: the state of the worker after \<open>k\<close> attempts in a row
  on one combination that all raised \<open>WebDriverException\<close> (\<open>None\<close> when they did not).
\<close>

fun failed_attempts :: "env \<Rightarrow> str \<Rightarrow> str \<Rightarrow> nat \<Rightarrow> worker_state \<Rightarrow> worker_state option" where
  "failed_attempts e make' model 0 s = Some s"
| "failed_attempts e make' model (Suc k) s =
     (case scrape_model e make' model (process_df s, outside s) of
        Some (Some err, df, w) \<Rightarrow>
          if err = WebDriverException
          then failed_attempts e make' model k \<lparr>process_df = df, files = files s, outside = w\<rparr>
          else None
      | _ \<Rightarrow> None)"

section \<open>Merge and deduplication (\<open>main\<close>, lines 292-300)\<close>

text \<open>
  The argument of \<open>remove\<close> is a Python list of two strings, the members of the column
  sequence are strings: a value is one or the other.
\<close>

datatype pyobj = Str str | StrList "str list"

text \<open>
  A sequence of column labels is a plain Python list or a pandas \<open>Index\<close>. The columns
  of a frame, \<open>final_df.columns\<close>, are an \<open>Index\<close>, and so is their \<open>copy()\<close>.
\<close>

datatype labels = PyList "pyobj list" | PandasIndex "pyobj list"

fun members :: "labels \<Rightarrow> pyobj list" where
  "members (PyList xs) = xs"
| "members (PandasIndex xs) = xs"

text \<open>
  \<open>xs.remove(x)\<close>. A list removes its first member equal to \<open>x\<close> and raises
  \<open>ValueError\<close> when there is none. A pandas \<open>Index\<close> has no attribute \<open>remove\<close>: the
  attribute access itself raises \<open>AttributeError\<close>, whatever the argument.
\<close>

definition py_remove :: "labels \<Rightarrow> pyobj \<Rightarrow> error + labels" where
  "py_remove xs x =
     (case xs of
        PyList ys \<Rightarrow> if x \<in> set ys then Inr (PyList (remove1 x ys)) else Inl ValueError
      | PandasIndex ys \<Rightarrow> Inl AttributeError)"

text \<open>The values of a row at the columns of \<open>key_cols\<close>, for a frame with columns \<open>cols\<close>.\<close>

definition project :: "str list \<Rightarrow> pyobj list \<Rightarrow> cell list \<Rightarrow> cell list" where
  "project cols key_cols row =
     map (\<lambda>c. case map_of (zip (map Str cols) row) c of None \<Rightarrow> None | Some v \<Rightarrow> v) key_cols"

text \<open>\<open>drop_duplicates(subset=key_cols)\<close>: a row stays unless an earlier row has its key.\<close>

fun drop_duplicates_from :: "cell list list \<Rightarrow> str list \<Rightarrow> pyobj list \<Rightarrow> cell list list \<Rightarrow> cell list list" where
  "drop_duplicates_from seen cols key_cols [] = []"
| "drop_duplicates_from seen cols key_cols (row # rows) =
     (if project cols key_cols row \<in> set seen
      then drop_duplicates_from seen cols key_cols rows
      else row # drop_duplicates_from (project cols key_cols row # seen) cols key_cols rows)"

definition drop_duplicates :: "str list \<Rightarrow> pyobj list \<Rightarrow> cell list list \<Rightarrow> cell list list" where
  "drop_duplicates cols key_cols rows = drop_duplicates_from [] cols key_cols rows"

text \<open>
  Lines 292-300 on the merged output file: read it (first line the header), rename the
  columns to \<open>english_columns\<close> (a frame with another number of columns raises
  \<open>ValueError\<close>), copy the column \<open>Index\<close>, call \<open>remove(['Model', 'Views'])\<close> on the copy,
  drop the duplicates under the remaining columns and write the file anew. The result is
  the exception raised, if any, and the files.
\<close>

definition merge_dedup :: "files \<Rightarrow> error option \<times> files" where
  "merge_dedup fs =
     (case fs OutputFile of
        None \<Rightarrow> (Some OtherError, fs)
      | Some [] \<Rightarrow> (Some OtherError, fs)
      | Some (header # rows) \<Rightarrow>
          if length header \<noteq> length english_columns then (Some ValueError, fs)
          else (case py_remove (PandasIndex (map Str english_columns))
                       (StrList [ascii ''Model'', ascii ''Views'']) of
                  Inl err \<Rightarrow> (Some err, fs)
                | Inr duplication_identification_cols \<Rightarrow>
                    (None,
                     fs(OutputFile \<mapsto> map Some english_columns
                          # drop_duplicates english_columns
                              (members duplication_identification_cols) rows))))"

section \<open>Fixtures\<close>

text \<open>Concrete worlds, environments and pages on which the theorems below are instantiated.\<close>

definition start_world :: world where
  "start_world = \<lparr>requests = [], navigations = []\<rparr>"

definition flaky_env :: env where
  "flaky_env =
     \<lparr>http = (\<lambda>n url. if n = 0 then Raises RequestException else Page []),
      browser = (\<lambda>n make' model. Inr [])\<rparr>"

definition down_env :: env where
  "down_env = \<lparr>http = (\<lambda>n url. Raises RequestException), browser = (\<lambda>n make' model. Inr [])\<rparr>"

definition bare_page :: soup where
  "bare_page = [Tag (ascii ''h1'') None None None [NavigableString (ascii ''Sold'')]]"

definition bare_env :: env where
  "bare_env = \<lparr>http = (\<lambda>n url. Page bare_page), browser = (\<lambda>n make' model. Inr [])\<rparr>"

definition plain_offer_page :: soup where
  "plain_offer_page =
     [Tag (ascii ''h1'') None None None [NavigableString (ascii '' Audi A4 '')],
      Tag (ascii ''span'') None (Some (ascii ''details_price'')) None
        [NavigableString (ascii ''1000 EUR'')],
      Tag (ascii ''ul'') (Some [ascii ''dilarData'']) None None
        [Tag (ascii ''li'') None None None [NavigableString col_Color],
         Tag (ascii ''li'') None None None [NavigableString (ascii ''Red'')]],
      Tag (ascii ''span'') (Some [ascii ''advact'']) None None [NavigableString (ascii ''17'')]]"

definition extra_label_page :: soup where
  "extra_label_page =
     [Tag (ascii ''h1'') None None None [NavigableString (ascii '' Audi A4 '')],
      Tag (ascii ''span'') None (Some (ascii ''details_price'')) None
        [NavigableString (ascii ''1000 EUR'')],
      Tag (ascii ''ul'') (Some [ascii ''dilarData'']) None None
        [Tag (ascii ''li'') None None None [NavigableString (ascii ''Warranty'')],
         Tag (ascii ''li'') None None None [NavigableString (ascii ''Yes'')]],
      Tag (ascii ''span'') (Some [ascii ''advact'']) None None [NavigableString (ascii ''17'')]]"

text \<open>
  The record of the two pages above: the one main attribute \<open>k\<close> with its value, the
  fields of lines 138-158, and \<open>None\<close> for every other column.
\<close>

definition record_of :: "cell \<Rightarrow> str \<Rightarrow> dict" where
  "record_of c k =
    [(k, c),
     (col_Title, Some (ascii ''Audi A4'')),
     (col_Make, Some (ascii ''Audi'')),
     (col_Model, Some (ascii ''A4'')),
     (col_Price_BGN_EUR, Some (ascii ''1000 EUR'')),
     (col_Region_Outside_country, None),
     (col_City_Country, None),
     (col_Views, Some (ascii ''17''))]
    @ map (\<lambda>c. (c, None))
       (filter (\<lambda>c. c \<noteq> k) [col_Body_type, col_Production_date, col_Engine_type, col_Transmission,
        col_Displacement_cc, col_Power, col_Euro_standard, col_Mileage_km, col_WLTP_mileage,
        col_Battery_capacity_kWh, col_Color, col_VIN_number, col_Safety_features,
        col_Comfort_features, col_Other_features, col_Exterior_features,
        col_Protection_features, col_Interior_features, col_Specialized_features])"

definition extra_env :: env where
  "extra_env = \<lparr>http = (\<lambda>n url. Page extra_label_page), browser = (\<lambda>n make' model. Inr [])\<rparr>"

text \<open>
  The row of \<open>extra_label_page\<close>, column by column: make, model, twelve columns without a
  value, price, the seven feature groups, region and city (none), views, title.
\<close>

definition extra_row :: "cell list" where
  "extra_row =
     [Some (ascii ''Audi''), Some (ascii ''A4''),
      None, None, None, None, None, None, None, None, None, None,
      None, None, Some (ascii ''1000 EUR''),
      None, None, None, None, None, None, None,
      None, None, Some (ascii ''17''), Some (ascii ''Audi A4'')]"

definition plain_env :: env where
  "plain_env = \<lparr>http = (\<lambda>n url. Page plain_offer_page), browser = (\<lambda>n make' model. Inr [])\<rparr>"

definition two_value_group :: element where
  "two_value_group =
     (Tag (ascii ''label'') (Some [ascii ''extra_cat'']) None None [NavigableString col_Comfort_features],
      [Tag (ascii ''div'') None None None [NavigableString (ascii ''xxA'')],
       Tag (ascii ''div'') None None None [NavigableString (ascii ''xxB'')]])"

definition empty_group_page :: soup where
  "empty_group_page =
     [Tag (ascii ''label'') (Some [ascii ''extra_cat'']) None None [NavigableString col_Safety_features],
      Tag (ascii ''label'') (Some [ascii ''extra_cat'']) None None [NavigableString col_Comfort_features],
      Tag (ascii ''div'') None None None [NavigableString (ascii ''xxA '')]]"

text \<open>
  A small site: one result page with one offer link and the current-page indicator, every
  offer URL serving \<open>plain_offer_page\<close>; the browser session raises
  \<open>WebDriverException\<close> on its first \<open>k\<close> navigations.
\<close>

definition results_page :: soup where
  "results_page =
     [Tag (ascii ''a'') (Some [ascii ''photoLink'']) None
        (Some (ascii ''//www.mobile.bg/pcgi/mobile.cgi?act=4&adv=1'')) [],
      Tag (ascii ''a'') (Some [ascii ''saveSlink'', ascii ''selected'']) None None
        [NavigableString (ascii ''1'')]]"

definition site_env :: "nat \<Rightarrow> env" where
  "site_env k =
     \<lparr>http = (\<lambda>n url. if url = ascii ''https://host/results'' then Page results_page
                      else Page plain_offer_page),
      browser = (\<lambda>n make' model. if n < k then Inl WebDriverException
                      else Inr (ascii ''https://host/results''))\<rparr>"

definition fresh_worker :: worker_state where
  "fresh_worker = \<lparr>process_df = [], files = (\<lambda>p. None), outside = start_world\<rparr>"

definition offer_row :: "str \<Rightarrow> cell list" where
  "offer_row model =
     map (value_at (setitem col_Model (Some (strip model)) (record_of (Some (ascii ''Red'')) col_Color)))
       columns"

text \<open>
  The same row written out, column by column: make, model, ten columns without a value,
  colour, VIN (none), price, the seven feature groups, region and city (none), views,
  title.
\<close>

definition plain_row :: "str \<Rightarrow> cell list" where
  "plain_row model =
     [Some (ascii ''Audi''), Some model,
      None, None, None, None, None, None, None, None, None, None,
      Some (ascii ''Red''), None, Some (ascii ''1000 EUR''),
      None, None, None, None, None, None, None,
      None, None, Some (ascii ''17''), Some (ascii ''Audi A4'')]"

text \<open>An output file that holds the same row twice.\<close>

definition dup_files :: files where
  "dup_files =
     (\<lambda>p. None)(OutputFile \<mapsto>
        [map Some columns, offer_row (ascii ''A4''), offer_row (ascii ''A4'')])"

text \<open>
  A result set of three pages. Page \<open>i\<close> has one offer link and the pagination bar
  \<open>1 2 3\<close>, in which \<open>i\<close> is the current-page indicator and the other entries are
  links with the class \<open>saveSlink\<close> and the URL of their page.
\<close>

definition page_url :: "nat \<Rightarrow> str" where
  "page_url j = ascii ''//host/results?p='' @ [48 + j]"

definition pagination :: "nat \<Rightarrow> node list" where
  "pagination i =
     map (\<lambda>j. if j = i
               then Tag (ascii ''a'') (Some [ascii ''saveSlink'', ascii ''selected'']) None None
                      [NavigableString [48 + j]]
               else Tag (ascii ''a'') (Some [ascii ''saveSlink'']) None (Some (page_url j))
                      [NavigableString [48 + j]])
       [1, 2, 3]"

definition result_page :: "nat \<Rightarrow> soup" where
  "result_page i =
     Tag (ascii ''a'') (Some [ascii ''photoLink'']) None
       (Some (ascii ''//www.mobile.bg/pcgi/mobile.cgi?act=4&adv='' @ [48 + i])) []
     # pagination i"

definition page_one :: soup where
  "page_one = result_page 1"

definition page_two :: soup where
  "page_two = result_page 2"

definition page_three :: soup where
  "page_three = result_page 3"

definition three_page_env :: env where
  "three_page_env =
     \<lparr>http = (\<lambda>n url.
         if url = ascii ''https://host/results'' then Page page_one
         else if url = ascii ''https:'' @ page_url 2 then Page page_two
         else if url = ascii ''https:'' @ page_url 3 then Page page_three
         else Page plain_offer_page),
      browser = (\<lambda>n make' model. Inr (ascii ''https://host/results''))\<rparr>"

section \<open>Properties of the Work Distributor\<close>

lemma shuffle_loop_perm:
  "i < length x \<Longrightarrow>
   mset (shuffle_loop randbelow i x) = mset x \<and> length (shuffle_loop randbelow i x) = length x"
proof (induction i arbitrary: x)
  case 0
  show ?case by simp
next
  case (Suc i)
  define j where "j = randbelow (Suc i) mod (Suc i + 1)"
  define y where "y = x[Suc i := x ! j, j := x ! Suc i]"
  have j: "j < length x" using Suc.prems by (simp add: j_def) (meson less_Suc_eq_le less_le_trans mod_less_divisor not_less zero_less_Suc)
  have ylen: "length y = length x" by (simp add: y_def)
  have ymset: "mset y = mset x" unfolding y_def using Suc.prems j by (simp add: mset_swap)
  have "i < length y" using Suc.prems ylen by simp
  from Suc.IH [OF this] ylen ymset show ?case
    by (simp add: j_def y_def Let_def)
qed

lemma shuffle_perm: "mset (shuffle randbelow x) = mset x"
proof (cases x)
  case Nil
  then show ?thesis by (simp add: shuffle_def)
next
  case (Cons a as)
  then have "length x - 1 < length x" by simp
  from shuffle_loop_perm [OF this] show ?thesis by (simp add: shuffle_def)
qed

lemma shuffle_length: "length (shuffle randbelow x) = length x"
  using shuffle_perm [of randbelow x] by (metis size_mset)

lemma concat_slices:
  "0 < k \<Longrightarrow> i \<le> length xs \<Longrightarrow>
   concat (map (\<lambda>i. slice xs i (i + k)) (range_from i (length xs) k)) = drop i xs"
proof (induction i "length xs" k arbitrary: xs rule: range_from.induct)
  case (1 i k)
  show ?case
  proof (cases "length xs \<le> i")
    case True
    with "1.prems" show ?thesis by (subst range_from.simps) simp
  next
    case False
    show ?thesis
    proof (cases "i + k \<le> length xs")
      case True
      with False "1.prems" have "concat (map (\<lambda>i. slice xs i (i + k)) (range_from (i + k) (length xs) k)) = drop (i + k) xs"
        by (intro "1.hyps") auto
      then have rest: "concat (map (\<lambda>i. slice xs i (i + k)) (range_from (i + k) (length xs) k)) = drop k (drop i xs)"
        by (simp add: add.commute)
      have unfold: "range_from i (length xs) k = i # range_from (i + k) (length xs) k"
        using False "1.prems" by (subst range_from.simps) simp
      have "slice xs i (i + k) @ drop k (drop i xs) = drop i xs"
        using append_take_drop_id [of k "drop i xs"] by (simp add: slice_def)
      with rest show ?thesis
        by (simp only: unfold list.map concat.simps)
    next
      case beyond: False
      then have stop: "range_from (i + k) (length xs) k = []"
        by (subst range_from.simps) simp
      have unfold: "range_from i (length xs) k = [i]"
        using False "1.prems" stop by (subst range_from.simps) simp
      from False beyond show ?thesis
        by (simp only: unfold list.map concat.simps) (simp add: slice_def)
    qed
  qed
qed

lemma range_from_chunks_nonempty:
  "0 < k \<Longrightarrow> j \<in> set (range_from i n k) \<Longrightarrow> j < n"
proof (induction i n k rule: range_from.induct)
  case (1 i n k)
  then show ?case
    by (subst (asm) (2) range_from.simps) (auto split: if_splits)
qed

lemma shuffle_loop_length: "length (shuffle_loop randbelow i x) = length x"
  by (induction i arbitrary: x) (simp_all add: Let_def)

lemma shuffle_loop_Suc:
  "shuffle_loop randbelow (Suc i) x =
     shuffle_loop randbelow i
       (x[Suc i := x ! (randbelow (Suc i) mod (Suc i + 1)),
          randbelow (Suc i) mod (Suc i + 1) := x ! Suc i])"
  by (simp add: Let_def)

lemma shuffle_loop_above:
  "i < m \<Longrightarrow> shuffle_loop randbelow i x ! m = x ! m"
proof (induction i arbitrary: x)
  case 0
  show ?case by simp
next
  case (Suc i)
  define j where "j = randbelow (Suc i) mod (Suc i + 1)"
  have j: "j \<le> Suc i" unfolding j_def by (metis Suc_eq_plus1 less_Suc_eq_le mod_less_divisor zero_less_Suc)
  with Suc.prems have ne: "m \<noteq> j" "m \<noteq> Suc i" by auto
  from Suc.prems have "i < m" by simp
  from Suc.IH [OF this, of "x[Suc i := x ! j, j := x ! Suc i]"] ne
  have "shuffle_loop randbelow i (x[Suc i := x ! j, j := x ! Suc i]) ! m = x ! m" by simp
  then show ?case unfolding shuffle_loop_Suc j_def .
qed

lemma draw_in_range: "randbelow (Suc i) mod (Suc i + 1) \<le> Suc i"
  by (metis Suc_eq_plus1 less_Suc_eq_le mod_less_divisor zero_less_Suc)

lemma swap_at_top:
  "Suc i < length x \<Longrightarrow> j \<le> Suc i \<Longrightarrow> (x[Suc i := x ! j, j := x ! Suc i]) ! Suc i = x ! j"
  by (cases "j = Suc i") simp_all

lemma shuffle_loop_draws_unique:
  "distinct x \<Longrightarrow> i < length x \<Longrightarrow> shuffle_loop f i x = shuffle_loop g i x \<Longrightarrow>
   1 \<le> k \<Longrightarrow> k \<le> i \<Longrightarrow> f k mod (k + 1) = g k mod (k + 1)"
proof (induction i arbitrary: x)
  case 0
  then show ?case by simp
next
  case (Suc i)
  define jf where "jf = f (Suc i) mod (Suc i + 1)"
  define jg where "jg = g (Suc i) mod (Suc i + 1)"
  define xf where "xf = x[Suc i := x ! jf, jf := x ! Suc i]"
  define xg where "xg = x[Suc i := x ! jg, jg := x ! Suc i]"
  have jf: "jf \<le> Suc i" and jg: "jg \<le> Suc i"
    unfolding jf_def jg_def by (rule draw_in_range)+
  have rf: "shuffle_loop f (Suc i) x = shuffle_loop f i xf"
    unfolding shuffle_loop_Suc xf_def jf_def ..
  have rg: "shuffle_loop g (Suc i) x = shuffle_loop g i xg"
    unfolding shuffle_loop_Suc xg_def jg_def ..
  have "shuffle_loop f i xf ! Suc i = xf ! Suc i" by (rule shuffle_loop_above) simp
  also have "\<dots> = x ! jf" unfolding xf_def using Suc.prems(2) jf by (rule swap_at_top)
  finally have tf: "shuffle_loop f i xf ! Suc i = x ! jf" .
  have "shuffle_loop g i xg ! Suc i = xg ! Suc i" by (rule shuffle_loop_above) simp
  also have "\<dots> = x ! jg" unfolding xg_def using Suc.prems(2) jg by (rule swap_at_top)
  finally have tg: "shuffle_loop g i xg ! Suc i = x ! jg" .
  from Suc.prems(3) rf rg tf tg have "x ! jf = x ! jg" by simp
  with Suc.prems(1,2) jf jg have same: "jf = jg"
    by (simp add: nth_eq_iff_index_eq)
  show ?case
  proof (cases "k = Suc i")
    case True
    with same show ?thesis by (simp add: jf_def jg_def)
  next
    case False
    with Suc.prems(5) have ki: "k \<le> i" by simp
    have d: "distinct xf"
      unfolding xf_def using Suc.prems(1,2) jf by (simp add: distinct_swap)
    have l: "i < length xf" using Suc.prems(2) by (simp add: xf_def)
    from Suc.prems(3) rf rg same have "shuffle_loop f i xf = shuffle_loop g i xf"
      by (simp add: xf_def xg_def)
    from Suc.IH [OF d l this Suc.prems(4) ki] show ?thesis .
  qed
qed

lemma shuffle_loop_cong:
  "\<forall>k. 1 \<le> k \<and> k \<le> i \<longrightarrow> f k = g k \<Longrightarrow> shuffle_loop f i x = shuffle_loop g i x"
proof (induction i arbitrary: x)
  case 0
  show ?case by simp
next
  case (Suc i)
  from Suc.prems have top: "f (Suc i) = g (Suc i)" by simp
  from Suc.prems have "\<forall>k. 1 \<le> k \<and> k \<le> i \<longrightarrow> f k = g k" by simp
  from Suc.IH [OF this] top show ?case
    unfolding shuffle_loop_Suc by simp
qed

lemma agree_above_zero:
  assumes "length ys = length x" "mset ys = mset x" "\<And>m. 0 < m \<Longrightarrow> m < length x \<Longrightarrow> ys ! m = x ! m"
  shows "ys = x"
proof (cases x)
  case Nil
  with assms(1) show ?thesis by simp
next
  case (Cons a xs)
  with assms(1) obtain b ys' where ys: "ys = b # ys'" by (cases ys) auto
  have "ys' = xs"
  proof (rule nth_equalityI)
    show "length ys' = length xs" using assms(1) Cons ys by simp
  next
    fix m assume "m < length ys'"
    with assms(3) [of "Suc m"] assms(1) Cons ys show "ys' ! m = xs ! m" by simp
  qed
  with assms(2) Cons ys show ?thesis by simp
qed

lemma shuffle_loop_reaches:
  "i < length x \<Longrightarrow> length ys = length x \<Longrightarrow> mset ys = mset x \<Longrightarrow>
   (\<And>m. i < m \<Longrightarrow> m < length x \<Longrightarrow> ys ! m = x ! m) \<Longrightarrow>
   \<exists>randbelow. shuffle_loop randbelow i x = ys"
proof (induction i arbitrary: x)
  case 0
  from agree_above_zero [OF "0.prems"(2,3)] "0.prems"(4) have "ys = x" by blast
  then show ?case by simp
next
  case (Suc i)
  let ?n = "Suc (Suc i)"
  have tail: "drop ?n ys = drop ?n x"
  proof (rule nth_equalityI)
    show "length (drop ?n ys) = length (drop ?n x)" using Suc.prems(2) by simp
  next
    fix m assume "m < length (drop ?n ys)"
    with Suc.prems(2) have "?n + m < length x" by simp
    with Suc.prems(4) [of "?n + m"] Suc.prems(2) show "drop ?n ys ! m = drop ?n x ! m"
      by simp
  qed
  have "mset (take ?n ys) + mset (drop ?n ys) = mset (take ?n x) + mset (drop ?n x)"
    using Suc.prems(3) by (metis append_take_drop_id mset_append)
  with tail have heads: "mset (take ?n ys) = mset (take ?n x)" by simp
  have "ys ! Suc i \<in> set (take ?n ys)"
    using Suc.prems(1,2) by (metis in_set_conv_nth length_take lessI min_less_iff_conj nth_take)
  with heads have "ys ! Suc i \<in> set (take ?n x)" by (metis set_mset_mset)
  then obtain j where j: "j < ?n" "j < length x" "x ! j = ys ! Suc i"
    by (auto simp: in_set_conv_nth)
  define x' where "x' = x[Suc i := x ! j, j := x ! Suc i]"
  have l': "length x' = length x" by (simp add: x'_def)
  have m': "mset x' = mset x" unfolding x'_def using Suc.prems(1) j(2) by (simp add: mset_swap)
  have top: "x' ! Suc i = ys ! Suc i"
    unfolding x'_def using swap_at_top [OF Suc.prems(1), of j] j by simp
  have agree: "ys ! m = x' ! m" if "i < m" "m < length x'" for m
  proof (cases "m = Suc i")
    case True
    with top show ?thesis by simp
  next
    case False
    with that have gt: "Suc i < m" by simp
    with j(1) have "m \<noteq> j" by simp
    with False have "x' ! m = x ! m" by (simp add: x'_def)
    with Suc.prems(4) [OF gt] that l' show ?thesis by simp
  qed
  have "i < length x'" using Suc.prems(1) l' by simp
  from Suc.IH [OF this] Suc.prems(2,3) l' m' agree
  obtain r where r: "shuffle_loop r i x' = ys" by auto
  define rb where "rb = r(Suc i := j)"
  have "rb (Suc i) mod (Suc i + 1) = j" using j(1) by (simp add: rb_def)
  then have "shuffle_loop rb (Suc i) x = shuffle_loop rb i x'"
    unfolding shuffle_loop_Suc x'_def by simp
  also have "\<dots> = shuffle_loop r i x'"
    by (rule shuffle_loop_cong) (simp add: rb_def)
  finally show ?case using r by blast
qed

lemma shuffle_reaches:
  "mset ys = mset x \<Longrightarrow> \<exists>randbelow. shuffle randbelow x = ys"
proof (cases x)
  case Nil
  assume "mset ys = mset x"
  with Nil show ?thesis by (simp add: shuffle_def)
next
  case (Cons a as)
  assume p: "mset ys = mset x"
  then have l: "length ys = length x" by (metis size_mset)
  from Cons have "length x - 1 < length x" by simp
  from shuffle_loop_reaches [OF this l p] show ?thesis
    by (simp add: shuffle_def)
qed

lemma shuffle_draws_unique:
  "distinct x \<Longrightarrow> shuffle f x = shuffle g x \<Longrightarrow> 1 \<le> k \<Longrightarrow> k < length x \<Longrightarrow>
   f k mod (k + 1) = g k mod (k + 1)"
proof -
  assume d: "distinct x" and e: "shuffle f x = shuffle g x" and k: "1 \<le> k" "k < length x"
  then have "length x - 1 < length x" "k \<le> length x - 1" by simp_all
  from shuffle_loop_draws_unique [OF d this(1) _ k(1) this(2), of f g] e show ?thesis
    by (simp add: shuffle_def)
qed

lemma range_from_nth:
  "0 < k \<Longrightarrow> j < length (range_from i n k) \<Longrightarrow> range_from i n k ! j = i + j * k"
proof (induction i n k arbitrary: j rule: range_from.induct)
  case (1 i n k)
  show ?case
  proof (cases "n \<le> i")
    case True
    with "1.prems" show ?thesis by (subst (asm) range_from.simps) simp
  next
    case False
    with "1.prems" have u: "range_from i n k = i # range_from (i + k) n k"
      by (subst range_from.simps) simp
    show ?thesis
    proof (cases j)
      case 0
      with u show ?thesis by simp
    next
      case (Suc j')
      with "1.prems" u have "j' < length (range_from (i + k) n k)" by simp
      from "1.IH" [OF _ "1.prems"(1) this] False "1.prems"(1)
      have "range_from (i + k) n k ! j' = i + k + j' * k" by simp
      with u Suc show ?thesis by simp
    qed
  qed
qed

lemma range_from_unit: "range_from i n 1 = [i ..< n]"
proof (induction i n "1::nat" rule: range_from.induct)
  case (1 i n)
  show ?case
  proof (cases "n \<le> i")
    case True
    then show ?thesis by (subst range_from.simps) simp
  next
    case False
    with 1 have "range_from (i + 1) n 1 = [i + 1 ..< n]" by simp
    with False show ?thesis
      by (subst range_from.simps) (simp add: upt_conv_Cons)
  qed
qed

lemma unit_slices: "map (\<lambda>i. slice s i (i + 1)) [0 ..< length s] = map (\<lambda>x. [x]) s"
proof (rule nth_equalityI)
  show "length (map (\<lambda>i. slice s i (i + 1)) [0 ..< length s]) = length (map (\<lambda>x. [x]) s)"
    by simp
next
  fix i assume "i < length (map (\<lambda>i. slice s i (i + 1)) [0 ..< length s])"
  then have i: "i < length s" by simp
  then have "take 1 (drop i s) = [s ! i]"
    by (metis Cons_nth_drop_Suc One_nat_def take0 take_Suc_Cons)
  with i show "map (\<lambda>i. slice s i (i + 1)) [0 ..< length s] ! i = map (\<lambda>x. [x]) s ! i"
    by (simp add: slice_def)
qed


text \<open>
  Claim C6. The distributor shuffles the combination list with \<open>random.shuffle\<close> and cuts
  the shuffled list into contiguous slices of \<open>len // (workerCount * 10)\<close> combinations.
  Whenever that chunk size \<open>k\<close> is at least 1, the call returns chunks of which the
  \<open>j\<close>-th is the slice of \<open>k\<close> combinations of the shuffled list that starts at \<open>j * k\<close>
  (the last one may be shorter, none is empty); their concatenation is the shuffled
  list, which is a permutation of the input, so every combination is assigned exactly
  once. The shuffle is uniform: every arrangement of the list is the result of some
  sequence of draws, and for a list of distinct combinations of exactly one (two
  sequences with the same result make the same draw in \<open>0..i\<close> at every index \<open>i\<close>), so
  independent uniform draws give every arrangement the same probability. For 81
  combinations and 8 workers the chunk size is 1 and the chunks are the 81 singletons of
  the shuffled list.
\<close>

theorem distributor_assigns_each_combination_once:
  "1 \<le> length all_models div (num_processes * 10) \<Longrightarrow>
   (\<exists>chunks. work_distributor randbelow num_processes all_models = Inr chunks
       \<and> concat chunks = shuffle randbelow all_models
       \<and> mset (concat chunks) = mset all_models
       \<and> (\<forall>j<length chunks.
             chunks ! j =
               take (length all_models div (num_processes * 10))
                 (drop (j * (length all_models div (num_processes * 10)))
                    (shuffle randbelow all_models))
             \<and> j * (length all_models div (num_processes * 10)) < length all_models)
       \<and> [] \<notin> set chunks)
   \<and> (\<forall>ys. mset ys = mset all_models \<longrightarrow> (\<exists>draws. shuffle draws all_models = ys))
   \<and> (distinct all_models \<longrightarrow>
        (\<forall>f g k. shuffle f all_models = shuffle g all_models \<and> 1 \<le> k \<and> k < length all_models
           \<longrightarrow> f k mod (k + 1) = g k mod (k + 1)))
   \<and> (length all_models = 81 \<longrightarrow>
        work_distributor randbelow 8 all_models =
          Inr (map (\<lambda>x. [x]) (shuffle randbelow all_models))
        \<and> work_distributor randbelow NUM_PROCESSES all_models =
          Inr (map (\<lambda>x. [x]) (shuffle randbelow all_models)))
   \<and> chunk_size num_processes (length all_models) = length all_models div (num_processes * 10)
   \<and> chunk_size 8 81 = 1"
proof -
  assume k1: "1 \<le> length all_models div (num_processes * 10)"
  define s where "s = shuffle randbelow all_models"
  define k where "k = length all_models div (num_processes * 10)"
  define chunks where "chunks = map (\<lambda>i. slice s i (i + k)) (range_from 0 (length s) k)"
  have ls: "length s = length all_models" by (simp add: s_def shuffle_length)
  have kpos: "0 < k" using k1 by (simp add: k_def)
  have ck: "chunk_size num_processes (length all_models) = k"
    by (simp add: chunk_size_def k_def)
  have ret: "work_distributor randbelow num_processes all_models = Inr chunks"
    using kpos by (simp add: work_distributor_def model_subsets_def Let_def s_def [symmetric] ls ck chunks_def)
  have cat: "concat chunks = s"
    unfolding chunks_def using concat_slices [OF kpos, of 0 s] by simp
  have perm: "mset (concat chunks) = mset all_models"
    by (simp add: cat s_def shuffle_perm)
  have nth: "\<forall>j<length chunks. chunks ! j = take k (drop (j * k) s) \<and> j * k < length all_models"
  proof (intro allI impI)
    fix j assume "j < length chunks"
    then have j: "j < length (range_from 0 (length s) k)" by (simp add: chunks_def)
    from range_from_nth [OF kpos j] have at: "range_from 0 (length s) k ! j = j * k" by simp
    from j have "range_from 0 (length s) k ! j \<in> set (range_from 0 (length s) k)" by simp
    from range_from_chunks_nonempty [OF kpos this] at ls have lt: "j * k < length all_models" by simp
    from j at have "chunks ! j = take k (drop (j * k) s)"
      by (simp add: chunks_def slice_def)
    with lt show "chunks ! j = take k (drop (j * k) s) \<and> j * k < length all_models" by simp
  qed
  have nonempty: "[] \<notin> set chunks"
  proof
    assume "[] \<in> set chunks"
    then obtain j where j: "j < length chunks" "chunks ! j = []" by (auto simp: in_set_conv_nth)
    with nth have "take k (drop (j * k) s) = []" "j * k < length s" by (simp_all add: ls)
    with kpos show False by simp
  qed
  have "\<exists>chunks. work_distributor randbelow num_processes all_models = Inr chunks
       \<and> concat chunks = s
       \<and> mset (concat chunks) = mset all_models
       \<and> (\<forall>j<length chunks. chunks ! j = take k (drop (j * k) s) \<and> j * k < length all_models)
       \<and> [] \<notin> set chunks"
    by (intro exI [of _ chunks] conjI ret cat perm nth nonempty)
  then have first: "\<exists>chunks. work_distributor randbelow num_processes all_models = Inr chunks
       \<and> concat chunks = shuffle randbelow all_models
       \<and> mset (concat chunks) = mset all_models
       \<and> (\<forall>j<length chunks.
             chunks ! j =
               take (length all_models div (num_processes * 10))
                 (drop (j * (length all_models div (num_processes * 10)))
                    (shuffle randbelow all_models))
             \<and> j * (length all_models div (num_processes * 10)) < length all_models)
       \<and> [] \<notin> set chunks"
    unfolding s_def k_def .
  have reach: "\<forall>ys. mset ys = mset all_models \<longrightarrow> (\<exists>draws. shuffle draws all_models = ys)"
    by (auto dest: shuffle_reaches)
  have unique: "distinct all_models \<longrightarrow>
        (\<forall>f g k. shuffle f all_models = shuffle g all_models \<and> 1 \<le> k \<and> k < length all_models
           \<longrightarrow> f k mod (k + 1) = g k mod (k + 1))"
    by (auto dest: shuffle_draws_unique)
  have units: "work_distributor randbelow 8 all_models = Inr (map (\<lambda>x. [x]) (shuffle randbelow all_models))"
    if "length all_models = 81"
  proof -
    from that have "chunk_size 8 (length s) = 1" by (simp add: chunk_size_def ls)
    then have "work_distributor randbelow 8 all_models =
        Inr (map (\<lambda>i. slice s i (i + 1)) (range_from 0 (length s) 1))"
      by (simp add: work_distributor_def model_subsets_def Let_def s_def [symmetric])
    then show ?thesis
      by (simp only: range_from_unit unit_slices s_def)
  qed
  have eighty_one: "length all_models = 81 \<longrightarrow>
        work_distributor randbelow 8 all_models =
          Inr (map (\<lambda>x. [x]) (shuffle randbelow all_models))
        \<and> work_distributor randbelow NUM_PROCESSES all_models =
          Inr (map (\<lambda>x. [x]) (shuffle randbelow all_models))"
    using units by (simp add: NUM_PROCESSES_def)
  have size: "chunk_size 8 81 = 1" by (simp add: chunk_size_def)
  note ck' = ck [unfolded k_def]
  show ?thesis
    by (intro conjI first reach unique eighty_one ck' size)
qed

lemma shuffle_81: "shuffle (\<lambda>i. 0) [0 ..< 81 :: nat] = [1 ..< 81] @ [0]"
  by code_simp

theorem distributor_witness:
  "1 \<le> length [0 ..< 81 :: nat] div (8 * 10)
   \<and> work_distributor (\<lambda>i. 0) 8 [0 ..< 81 :: nat] = Inr (map (\<lambda>x. [x]) ([1 ..< 81] @ [0]))"
proof -
  have h: "1 \<le> length [0 ..< 81 :: nat] div (8 * 10)" by simp
  note t = distributor_assigns_each_combination_once [OF h, of "\<lambda>i. 0"]
  have len: "length [0 ..< 81 :: nat] = 81" by simp
  from t [THEN conjunct2, THEN conjunct2, THEN conjunct2, THEN conjunct1, rule_format, OF len, THEN conjunct1]
  have "work_distributor (\<lambda>i. 0) 8 [0 ..< 81 :: nat] =
      Inr (map (\<lambda>x. [x]) (shuffle (\<lambda>i. 0) [0 ..< 81 :: nat]))" .
  then have "work_distributor (\<lambda>i. 0) 8 [0 ..< 81 :: nat] = Inr (map (\<lambda>x. [x]) ([1 ..< 81] @ [0]))"
    by (simp only: shuffle_81)
  with h show ?thesis by (rule conjI)
qed

section \<open>Properties of the document queries\<close>

lemmas dom_defs = find_one_def find_all_def matches_def class_matches_def find_text_def
  find_next_sibling_def any_tag_def tag_div_def

lemma any_tag_is_tag: "any_tag n = is_tag n"
  by (simp add: any_tag_def matches_def)

lemma next_sibling_where_is_tag: "next_sibling_where P sibs = Some d \<Longrightarrow> is_tag (fst d)"
  by (induction sibs) (auto split: if_splits)

lemma descendants_are_tags: "d \<in> set (descendants doc) \<Longrightarrow> is_tag (fst d)"
  by (induction doc rule: descendants.induct) auto

lemma find_is_tag: "find_one P doc = Some d \<Longrightarrow> is_tag (fst d)"
proof -
  assume "find_one P doc = Some d"
  then have "d \<in> set (find_all P doc)"
    by (auto simp: find_one_def split: list.splits)
  then show ?thesis
    by (auto simp: find_all_def dest: descendants_are_tags)
qed

section \<open>Properties of the Page Fetcher\<close>

lemma get_page_loop_failures:
  "k \<le> length attempts \<Longrightarrow>
   (\<forall>j<k. http e (length (requests w) + j) (ascii ''https:'' @ url) = Raises RequestException) \<Longrightarrow>
   get_page_loop e url attempts w =
     get_page_loop e url (drop k attempts)
       (w\<lparr>requests := requests w @ replicate k (ascii ''https:'' @ url)\<rparr>)"
proof (induction k arbitrary: attempts w)
  case 0
  show ?case by simp
next
  case (Suc k)
  then obtain i rest where a: "attempts = i # rest" by (cases attempts) auto
  define w' where "w' = w\<lparr>requests := requests w @ [ascii ''https:'' @ url]\<rparr>"
  from Suc.prems(2) have first: "http e (length (requests w)) (ascii ''https:'' @ url) = Raises RequestException"
    by (metis add.right_neutral zero_less_Suc)
  have later: "\<forall>j<k. http e (length (requests w') + j) (ascii ''https:'' @ url) = Raises RequestException"
  proof (intro allI impI)
    fix j assume "j < k"
    then have "Suc j < Suc k" by simp
    with Suc.prems(2) have "http e (length (requests w) + Suc j) (ascii ''https:'' @ url) = Raises RequestException"
      by blast
    then show "http e (length (requests w') + j) (ascii ''https:'' @ url) = Raises RequestException"
      by (simp add: w'_def)
  qed
  have len: "k \<le> length rest" using Suc.prems(1) a by simp
  have step: "get_page_loop e url attempts w = get_page_loop e url rest w'"
    by (simp add: a first w'_def Let_def)
  have "get_page_loop e url rest w' =
        get_page_loop e url (drop k rest) (w'\<lparr>requests := requests w' @ replicate k (ascii ''https:'' @ url)\<rparr>)"
    by (rule Suc.IH [OF len later])
  also have "w'\<lparr>requests := requests w' @ replicate k (ascii ''https:'' @ url)\<rparr>
           = w\<lparr>requests := requests w @ replicate (Suc k) (ascii ''https:'' @ url)\<rparr>"
    by (simp add: w'_def replicate_app_Cons_same)
  finally show ?case using step a by simp
qed

lemma get_page_exhausted:
  "\<forall>j<3. http e (length (requests w) + j) (ascii ''https:'' @ url) = Raises RequestException \<Longrightarrow>
   get_page e url w = (Inr None, w\<lparr>requests := requests w @ replicate 3 (ascii ''https:'' @ url)\<rparr>)"
proof -
  assume h: "\<forall>j<3. http e (length (requests w) + j) (ascii ''https:'' @ url) = Raises RequestException"
  have "(3::nat) \<le> length [0, 1, 2 :: nat]" by simp
  from get_page_loop_failures [OF this, of e w url] h show ?thesis
    by (simp add: get_page_def)
qed

lemma get_page_first_try:
  "http e (length (requests w)) (ascii ''https:'' @ url) = Page doc \<Longrightarrow>
   get_page e url w = (Inr (Some doc), w\<lparr>requests := requests w @ [ascii ''https:'' @ url]\<rparr>)"
  by (simp add: get_page_def Let_def)

text \<open>
  Claim C8. \<open>get_page\<close> makes at most three requests for the URL. While the requests
  raise \<open>RequestException\<close> it tries again; the parsed page of the first request that
  succeeds is returned and no further request is made; when all three requests raise
  \<open>RequestException\<close> it returns \<open>None\<close> and raises nothing; an exception of another kind
  is not retried but propagates.
\<close>

theorem get_page_bounded_retry:
  "(\<forall>k doc. k < 3
        \<and> (\<forall>j<k. http e (length (requests w) + j) (ascii ''https:'' @ url) = Raises RequestException)
        \<and> http e (length (requests w) + k) (ascii ''https:'' @ url) = Page doc
      \<longrightarrow> get_page e url w =
            (Inr (Some doc), w\<lparr>requests := requests w @ replicate (Suc k) (ascii ''https:'' @ url)\<rparr>))
   \<and> ((\<forall>j<3. http e (length (requests w) + j) (ascii ''https:'' @ url) = Raises RequestException)
      \<longrightarrow> get_page e url w =
            (Inr None, w\<lparr>requests := requests w @ replicate 3 (ascii ''https:'' @ url)\<rparr>))
   \<and> (\<forall>k err. k < 3 \<and> err \<noteq> RequestException
        \<and> (\<forall>j<k. http e (length (requests w) + j) (ascii ''https:'' @ url) = Raises RequestException)
        \<and> http e (length (requests w) + k) (ascii ''https:'' @ url) = Raises err
      \<longrightarrow> get_page e url w =
            (Inl err, w\<lparr>requests := requests w @ replicate (Suc k) (ascii ''https:'' @ url)\<rparr>))
   \<and> (\<exists>k\<le>3. requests (snd (get_page e url w)) = requests w @ replicate k (ascii ''https:'' @ url))"
proof (intro conjI allI impI)
  fix k doc
  assume h: "k < 3
        \<and> (\<forall>j<k. http e (length (requests w) + j) (ascii ''https:'' @ url) = Raises RequestException)
        \<and> http e (length (requests w) + k) (ascii ''https:'' @ url) = Page doc"
  define wk where "wk = w\<lparr>requests := requests w @ replicate k (ascii ''https:'' @ url)\<rparr>"
  from h have "k \<le> length [0, 1, 2 :: nat]" by simp
  from get_page_loop_failures [OF this, of e w url] h
  have "get_page e url w = get_page_loop e url (drop k [0, 1, 2]) wk"
    by (simp add: get_page_def wk_def)
  moreover from h obtain i rest where "drop k [0, 1, 2 :: nat] = i # rest"
    by (cases "drop k [0, 1, 2 :: nat]") auto
  moreover from h have "http e (length (requests wk)) (ascii ''https:'' @ url) = Page doc"
    by (simp add: wk_def)
  ultimately show "get_page e url w =
            (Inr (Some doc), w\<lparr>requests := requests w @ replicate (Suc k) (ascii ''https:'' @ url)\<rparr>)"
    by (simp add: Let_def wk_def replicate_append_same)
next
  assume h: "\<forall>j<3. http e (length (requests w) + j) (ascii ''https:'' @ url) = Raises RequestException"
  have "(3::nat) \<le> length [0, 1, 2 :: nat]" by simp
  from get_page_loop_failures [OF this, of e w url] h
  show "get_page e url w =
            (Inr None, w\<lparr>requests := requests w @ replicate 3 (ascii ''https:'' @ url)\<rparr>)"
    by (simp add: get_page_def)
next
  fix k err
  assume h: "k < 3 \<and> err \<noteq> RequestException
        \<and> (\<forall>j<k. http e (length (requests w) + j) (ascii ''https:'' @ url) = Raises RequestException)
        \<and> http e (length (requests w) + k) (ascii ''https:'' @ url) = Raises err"
  define wk where "wk = w\<lparr>requests := requests w @ replicate k (ascii ''https:'' @ url)\<rparr>"
  from h have "k \<le> length [0, 1, 2 :: nat]" by simp
  from get_page_loop_failures [OF this, of e w url] h
  have "get_page e url w = get_page_loop e url (drop k [0, 1, 2]) wk"
    by (simp add: get_page_def wk_def)
  moreover from h obtain i rest where "drop k [0, 1, 2 :: nat] = i # rest"
    by (cases "drop k [0, 1, 2 :: nat]") auto
  moreover from h have "http e (length (requests wk)) (ascii ''https:'' @ url) = Raises err"
    by (simp add: wk_def)
  ultimately show "get_page e url w =
            (Inl err, w\<lparr>requests := requests w @ replicate (Suc k) (ascii ''https:'' @ url)\<rparr>)"
    using h by (simp add: Let_def wk_def replicate_append_same)
next
  have gen: "\<exists>k\<le>length attempts. requests (snd (get_page_loop e url attempts w)) = requests w @ replicate k (ascii ''https:'' @ url)"
    for attempts w
  proof (induction attempts arbitrary: w)
    case Nil
    show ?case by simp
  next
    case (Cons i attempts)
    define w' where "w' = w\<lparr>requests := requests w @ [ascii ''https:'' @ url]\<rparr>"
    show ?case
    proof (cases "http e (length (requests w)) (ascii ''https:'' @ url)")
      case (Page doc)
      then have "requests (snd (get_page_loop e url (i # attempts) w)) = requests w @ replicate 1 (ascii ''https:'' @ url)"
        by (simp add: Let_def)
      then show ?thesis by (intro exI [of _ 1]) simp
    next
      case (Raises err)
      show ?thesis
      proof (cases "err = RequestException")
        case True
        from Cons.IH [of w'] obtain k where k: "k \<le> length attempts"
          "requests (snd (get_page_loop e url attempts w')) = requests w' @ replicate k (ascii ''https:'' @ url)"
          by blast
        from Raises True k(2) have "requests (snd (get_page_loop e url (i # attempts) w)) = requests w @ replicate (Suc k) (ascii ''https:'' @ url)"
          by (simp add: Let_def w'_def)
        with k(1) show ?thesis by (intro exI [of _ "Suc k"]) simp
      next
        case False
        with Raises have "requests (snd (get_page_loop e url (i # attempts) w)) = requests w @ replicate 1 (ascii ''https:'' @ url)"
          by (simp add: Let_def)
        then show ?thesis by (intro exI [of _ 1]) simp
      qed
    qed
  qed
  from gen [of "[0, 1, 2]" w] obtain k where
    "k \<le> length [0, 1, 2 :: nat]"
    "requests (snd (get_page_loop e url [0, 1, 2] w)) = requests w @ replicate k (ascii ''https:'' @ url)"
    by blast
  then show "\<exists>k\<le>3. requests (snd (get_page e url w)) = requests w @ replicate k (ascii ''https:'' @ url)"
    unfolding get_page_def by (intro exI [of _ k]) (simp del: get_page_loop.simps)
qed

theorem get_page_witness:
  "get_page flaky_env (ascii ''//host/page'') start_world =
     (Inr (Some []), start_world\<lparr>requests := replicate 2 (ascii ''https://host/page'')\<rparr>)"
proof -
  note t = get_page_bounded_retry [where e = flaky_env and w = start_world and url = "ascii ''//host/page''"]
  from t [THEN conjunct1, rule_format, of 1 "[]"] show ?thesis
    by (simp add: flaky_env_def start_world_def ascii_def eval_nat_numeral)
qed

section \<open>Properties of the Record Extractor\<close>

text \<open>
  Claim C4. When the fetched detail page has no main-attributes list
  (\<open>ul.dilarData\<close>), \<open>scrape_offer_data\<close> returns without raising, the batch is exactly
  what it was (no record, not even a partial one, is appended), nothing is fetched
  again (the world is the one the single \<open>get_page\<close> call left), and the loop over the
  offer links goes on with the next link.
\<close>

theorem missing_main_attributes_skip:
  "get_page e offer_url w = (Inr (Some doc), w1) \<Longrightarrow>
   find_one (matches (Some (ascii ''ul'')) (Some (ascii ''dilarData'')) None) doc = None \<Longrightarrow>
   scrape_offer_data e make' model offer_url (data, w) = (None, data, w1)
   \<and> scrape_offers e make' model (offer_url # offer_links) (data, w) =
       scrape_offers e make' model offer_links (data, w1)"
proof -
  assume page: "get_page e offer_url w = (Inr (Some doc), w1)"
    and absent: "find_one (matches (Some (ascii ''ul'')) (Some (ascii ''dilarData'')) None) doc = None"
  have main: "parse_main_car_details (Some doc) [] = Inl ValueError"
    by (simp add: parse_main_car_details_def absent)
  have one: "scrape_offer_data e make' model offer_url (data, w) = (None, data, w1)"
    by (simp add: scrape_offer_data_def page main)
  then show ?thesis by simp
qed

theorem missing_main_attributes_witness:
  "scrape_offer_data bare_env (ascii ''Audi'') (ascii ''A4'') (ascii ''//host/offer'') ([], start_world) =
     (None, [], start_world\<lparr>requests := [ascii ''https://host/offer'']\<rparr>)"
proof -
  have "http bare_env (length (requests start_world)) (ascii ''https:'' @ ascii ''//host/offer'') = Page bare_page"
    by (simp add: bare_env_def)
  from get_page_first_try [OF this]
  have page: "get_page bare_env (ascii ''//host/offer'') start_world =
      (Inr (Some bare_page), start_world\<lparr>requests := requests start_world @ [ascii ''https:'' @ ascii ''//host/offer'']\<rparr>)" .
  have absent: "find_one (matches (Some (ascii ''ul'')) (Some (ascii ''dilarData'')) None) bare_page = None"
    by (simp add: bare_page_def find_one_def find_all_def matches_def ascii_def)
  from missing_main_attributes_skip [OF page absent, of "ascii ''Audi''" "ascii ''A4''" "[]" "[]"]
  show ?thesis by (simp add: start_world_def ascii_def)
qed

text \<open>
  Claim C10. When all three requests for an offer page raise \<open>RequestException\<close>,
  \<open>get_page\<close> returns \<open>None\<close>; \<open>parse_main_car_details\<close> on \<open>None\<close> raises the same
  \<open>ValueError\<close> as on a page without main attributes, and \<open>scrape_offer_data\<close> returns
  without raising and without appending: the batch is unchanged and the loop over the
  offer links goes on with the next link.
\<close>

theorem fetch_exhaustion_skips_offer:
  "\<forall>j<3. http e (length (requests w) + j) (ascii ''https:'' @ offer_url) = Raises RequestException \<Longrightarrow>
   get_page e offer_url w =
     (Inr None, w\<lparr>requests := requests w @ replicate 3 (ascii ''https:'' @ offer_url)\<rparr>)
   \<and> parse_main_car_details None [] = Inl ValueError
   \<and> scrape_offer_data e make' model offer_url (data, w) =
       (None, data, w\<lparr>requests := requests w @ replicate 3 (ascii ''https:'' @ offer_url)\<rparr>)
   \<and> scrape_offers e make' model (offer_url # offer_links) (data, w) =
       scrape_offers e make' model offer_links
         (data, w\<lparr>requests := requests w @ replicate 3 (ascii ''https:'' @ offer_url)\<rparr>)"
proof -
  assume h: "\<forall>j<3. http e (length (requests w) + j) (ascii ''https:'' @ offer_url) = Raises RequestException"
  have main: "parse_main_car_details None [] = Inl ValueError"
    by (simp add: parse_main_car_details_def)
  have one: "scrape_offer_data e make' model offer_url (data, w) =
       (None, data, w\<lparr>requests := requests w @ replicate 3 (ascii ''https:'' @ offer_url)\<rparr>)"
    by (simp add: scrape_offer_data_def get_page_exhausted [OF h] main)
  from get_page_exhausted [OF h] main one show ?thesis by simp
qed

theorem fetch_exhaustion_witness:
  "scrape_offer_data down_env (ascii ''Audi'') (ascii ''A4'') (ascii ''//host/offer'') ([], start_world) =
     (None, [], start_world\<lparr>requests := replicate 3 (ascii ''https://host/offer'')\<rparr>)"
proof -
  have h: "\<forall>j<3. http down_env (length (requests start_world) + j) (ascii ''https:'' @ ascii ''//host/offer'') = Raises RequestException"
    by (simp add: down_env_def)
  from fetch_exhaustion_skips_offer [OF h, of "ascii ''Audi''" "ascii ''A4''" "[]" "[]"]
  show ?thesis by (simp add: start_world_def ascii_def eval_nat_numeral)
qed

lemma keys_setitem: "keys (setitem k v d) = insert k (keys d)"
  by (simp add: keys_def setitem_def dom_update)

lemma map_of_setitem: "map_of (setitem k v d) = (map_of d)(k \<mapsto> v)"
  by (simp add: setitem_def update_conv')

lemma keys_dict_update: "keys (dict_update target pairs) = keys target \<union> fst ` set pairs"
  unfolding dict_update_def
  by (induction pairs arbitrary: target) (auto simp: keys_setitem)

lemma keys_fold_none: "keys (fold (\<lambda>c d. setitem c None d) cs d) = keys d \<union> set cs"
  by (induction cs arbitrary: d) (auto simp: keys_setitem)

lemma map_of_fold_none:
  "map_of (fold (\<lambda>c d. setitem c None d) cs d) k = (if k \<in> set cs then Some None else map_of d k)"
  by (induction cs arbitrary: d) (auto simp: map_of_setitem)

lemma keys_fill_missing_columns: "keys (fill_missing_columns d) = keys d \<union> set columns"
  by (auto simp: fill_missing_columns_def keys_fold_none)

lemma map_of_fill_missing_columns:
  "map_of (fill_missing_columns d) k = (if k \<in> set columns \<and> k \<notin> keys d then Some None else map_of d k)"
  by (simp add: fill_missing_columns_def map_of_fold_none)

lemma keys_features_loop:
  "features_loop labels target = Inr d \<Longrightarrow> keys d = keys target \<union> (\<lambda>l. get_text (fst l)) ` set labels"
proof (induction labels arbitrary: target)
  case Nil
  then show ?case by simp
next
  case (Cons label labels)
  then show ?case
    by (auto simp: keys_setitem Let_def split: sum.splits)
qed

lemma fixed_fields_columns: "fixed_fields \<subseteq> set columns"
  by (simp add: fixed_fields_def columns_def)

lemma keys_parse_additional:
  "parse_additional_car_features offer_soup target = Inr d \<Longrightarrow>
   keys d = keys target \<union> feature_group_labels offer_soup"
  by (auto simp: parse_additional_car_features_def feature_group_labels_def
      split: option.splits dest: keys_features_loop)

lemma fill_parsed_data_shape:
  assumes "fill_parsed_data make' model offer_soup parsed_data = Inr record"
  shows "\<exists>d7. record = fill_missing_columns d7
            \<and> keys d7 = keys parsed_data \<union> fixed_fields \<union> feature_group_labels offer_soup"
proof -
  from assms obtain d6 views d7 where
    d7: "parse_additional_car_features offer_soup (setitem col_Views (Some views) d6) = Inr d7"
    and r: "record = fill_missing_columns d7"
    and d6: "keys d6 = insert col_City_Country (insert col_Region_Outside_country
              (insert col_Price_BGN_EUR (insert col_Model (insert col_Make (insert col_Title (keys parsed_data))))))"
    unfolding fill_parsed_data_def Let_def
    by (simp split: sum.splits add: keys_setitem)
  from keys_parse_additional [OF d7] d6
  have "keys d7 = keys parsed_data \<union> fixed_fields \<union> feature_group_labels offer_soup"
    by (auto simp: keys_setitem fixed_fields_def)
  with r show ?thesis by blast
qed

lemma columns_length: "length columns = 26"
  by (simp add: columns_def)

lemma columns_distinct: "distinct columns"
  by (simp add: columns_def column_names)

lemma map_of_zip_columns:
  "c \<in> set columns \<Longrightarrow> map_of (zip columns (map f columns)) c = Some (f c)"
  by (simp add: map_of_zip_map)

lemma parse_main_plain:
  "parse_main_car_details (Some plain_offer_page) [] = Inr [(col_Color, Some (ascii ''Red''))]"
  by (simp add: parse_main_car_details_def plain_offer_page_def dom_defs ascii_def enumerate_eq_zip
      is_data_def dict_update_def setitem_def Let_def upt_rec)

lemma parse_main_extra:
  "parse_main_car_details (Some extra_label_page) [] = Inr [(ascii ''Warranty'', Some (ascii ''Yes''))]"
  by (simp add: parse_main_car_details_def extra_label_page_def dom_defs ascii_def enumerate_eq_zip
      is_data_def dict_update_def setitem_def Let_def upt_rec)

lemma fill_extra:
  "fill_parsed_data (ascii ''Audi'') (ascii ''A4'') (Some extra_label_page) [(ascii ''Warranty'', Some (ascii ''Yes''))]
    = Inr (record_of (Some (ascii ''Yes'')) (ascii ''Warranty''))"
  by (simp add: fill_parsed_data_def extra_label_page_def dom_defs ascii_def
      parse_additional_car_features_def fill_missing_columns_def keys_def
      setitem_def Let_def strip_def isspace_def record_of_def columns_def column_names)

text \<open>
  The dict \<open>parsed_data\<close> of a page whose main-attributes list carries a label that is not
  a schema name keeps that label as a key. The dict does not leave \<open>scrape_offer_data\<close>:
  the record that is emitted is the row that line 170 appends to the batch, with one cell
  for each column of the frame.
\<close>

lemma parsed_data_keeps_extra_label:
  "ascii ''Warranty'' \<in> keys (record_of (Some (ascii ''Yes'')) (ascii ''Warranty''))
   \<and> ascii ''Warranty'' \<notin> set columns"
  by (simp add: keys_def record_of_def columns_def column_names ascii_def)

lemma extra_row_run:
  "scrape_offer_data extra_env (ascii ''Audi'') (ascii ''A4'') (ascii ''//host/offer'') ([], start_world)
     = (None, [extra_row], start_world\<lparr>requests := [ascii ''https://host/offer'']\<rparr>)"
proof -
  have "http extra_env (length (requests start_world)) (ascii ''https:'' @ ascii ''//host/offer'') = Page extra_label_page"
    by (simp add: extra_env_def)
  from get_page_first_try [OF this]
  have page: "get_page extra_env (ascii ''//host/offer'') start_world =
      (Inr (Some extra_label_page), start_world\<lparr>requests := requests start_world @ [ascii ''https:'' @ ascii ''//host/offer'']\<rparr>)" .
  have row: "map (value_at (record_of (Some (ascii ''Yes'')) (ascii ''Warranty''))) columns = extra_row"
    by (simp add: extra_row_def value_at_def record_of_def columns_def column_names ascii_def)
  show ?thesis
    by (simp add: scrape_offer_data_def page parse_main_extra fill_extra append_row_def row)
       (simp add: start_world_def ascii_def)
qed

text \<open>
  Claim C2. Whenever \<open>scrape_offer_data\<close> emits a record, that is, whenever it returns
  with a batch other than the one it was given: the page was fetched, the main attributes
  were parsed and lines 138-165 raised nothing; no exception leaves the function; the
  batch is the old one followed by exactly one row; the row has 26 cells, one for each of
  the 26 pairwise different schema columns and in their order, so that the fields of the
  emitted record are exactly the schema, with no field outside it; every schema column
  is a key of \<open>parsed_data\<close> and the row holds, under that column, the value
  \<open>parsed_data\<close> has for it; and a column that is neither a main-attribute label of the
  page, nor a feature-group label, nor one of the seven fields of lines 138-158 has the
  value \<open>None\<close>, in \<open>parsed_data\<close> and in the row. The record is written as the row
  paired with the column names, \<open>zip columns row\<close>.
\<close>

theorem emitted_record_has_schema_fields:
  "scrape_offer_data e make' model offer_url (data, w) = (result, data', w') \<Longrightarrow>
   data' \<noteq> data \<Longrightarrow>
   \<exists>offer_soup main parsed_data row.
      get_page e offer_url w = (Inr offer_soup, w')
      \<and> parse_main_car_details offer_soup [] = Inr main
      \<and> fill_parsed_data make' model offer_soup main = Inr parsed_data
      \<and> result = None
      \<and> data' = data @ [row]
      \<and> length row = 26 \<and> length columns = 26 \<and> distinct columns
      \<and> map fst (zip columns row) = columns
      \<and> fst ` set (zip columns row) = set columns
      \<and> set columns \<subseteq> fst ` set parsed_data
      \<and> (\<forall>c\<in>set columns. \<exists>v. map_of parsed_data c = Some v \<and> map_of (zip columns row) c = Some v)
      \<and> (\<forall>c\<in>set columns.
            c \<notin> fst ` set main \<union> feature_group_labels offer_soup
                  \<union> {col_Title, col_Make, col_Model, col_Price_BGN_EUR,
                       col_Region_Outside_country, col_City_Country, col_Views}
            \<longrightarrow> map_of parsed_data c = Some None \<and> map_of (zip columns row) c = Some None)"
proof -
  assume run: "scrape_offer_data e make' model offer_url (data, w) = (result, data', w')"
    and changed: "data' \<noteq> data"
  from run changed obtain offer_soup main parsed_data where
    page: "get_page e offer_url w = (Inr offer_soup, w')"
    and main: "parse_main_car_details offer_soup [] = Inr main"
    and filled: "fill_parsed_data make' model offer_soup main = Inr parsed_data"
    and res: "result = None"
    and out: "data' = data @ [map (value_at parsed_data) columns]"
    unfolding scrape_offer_data_def append_row_def
    by (auto split: prod.splits sum.splits if_splits)
  from fill_parsed_data_shape [OF filled] obtain d7 where
    r: "parsed_data = fill_missing_columns d7"
    and d7: "keys d7 = keys main \<union> fixed_fields \<union> feature_group_labels offer_soup"
    by blast
  define row where "row = map (value_at parsed_data) columns"
  have len: "length row = 26" by (simp add: row_def columns_length)
  have fsts: "map fst (zip columns row) = columns" by (simp add: row_def)
  then have img: "fst ` set (zip columns row) = set columns"
    by (metis set_map)
  have sub: "set columns \<subseteq> fst ` set parsed_data"
    using r keys_fill_missing_columns [of d7] by (auto simp: keys_def dom_map_of_conv_image_fst)
  have vals: "\<forall>c\<in>set columns. \<exists>v. map_of parsed_data c = Some v \<and> map_of (zip columns row) c = Some v"
  proof
    fix c assume c: "c \<in> set columns"
    with sub have "c \<in> dom (map_of parsed_data)" by (auto simp: dom_map_of_conv_image_fst)
    then obtain v where v: "map_of parsed_data c = Some v" by blast
    from c have "map_of (zip columns row) c = Some (value_at parsed_data c)"
      unfolding row_def by (rule map_of_zip_columns)
    with v show "\<exists>v. map_of parsed_data c = Some v \<and> map_of (zip columns row) c = Some v"
      by (simp add: value_at_def)
  qed
  have sentinel: "\<forall>c\<in>set columns.
            c \<notin> fst ` set main \<union> feature_group_labels offer_soup
                  \<union> {col_Title, col_Make, col_Model, col_Price_BGN_EUR,
                       col_Region_Outside_country, col_City_Country, col_Views}
            \<longrightarrow> map_of parsed_data c = Some None \<and> map_of (zip columns row) c = Some None"
  proof (intro ballI impI)
    fix c assume c: "c \<in> set columns"
      and free: "c \<notin> fst ` set main \<union> feature_group_labels offer_soup
                  \<union> {col_Title, col_Make, col_Model, col_Price_BGN_EUR,
                       col_Region_Outside_country, col_City_Country, col_Views}"
    from free d7 have "c \<notin> keys d7"
      by (auto simp: keys_def dom_map_of_conv_image_fst fixed_fields_def)
    with c r have p: "map_of parsed_data c = Some None"
      by (simp add: map_of_fill_missing_columns)
    from vals c p have "map_of (zip columns row) c = Some None" by auto
    with p show "map_of parsed_data c = Some None \<and> map_of (zip columns row) c = Some None" by simp
  qed
  from out have out': "data' = data @ [row]" by (simp add: row_def)
  show ?thesis
    by (intro exI [of _ offer_soup] exI [of _ main] exI [of _ parsed_data] exI [of _ row] conjI
        page main filled res out' len columns_length columns_distinct fsts img sub vals sentinel)
qed

theorem emitted_record_witness:
  "scrape_offer_data extra_env (ascii ''Audi'') (ascii ''A4'') (ascii ''//host/offer'') ([], start_world)
     = (None, [extra_row], start_world\<lparr>requests := [ascii ''https://host/offer'']\<rparr>)
   \<and> [extra_row] \<noteq> []
   \<and> length extra_row = 26
   \<and> fst ` set (zip columns extra_row) = set columns
   \<and> ascii ''Warranty'' \<notin> fst ` set (zip columns extra_row)
   \<and> map_of (zip columns extra_row) col_Color = Some None"
proof -
  have ne: "[extra_row] \<noteq> []" by simp
  from emitted_record_has_schema_fields [OF extra_row_run ne]
  obtain row where
    out: "[extra_row] = [] @ [row]"
    and len: "length row = 26"
    and img: "fst ` set (zip columns row) = set columns"
    by blast
  from out have row: "row = extra_row" by simp
  have w: "ascii ''Warranty'' \<notin> set columns"
    by (simp add: columns_def column_names ascii_def)
  have c: "map_of (zip columns extra_row) col_Color = Some None"
    by (simp add: columns_def extra_row_def column_names)
  from extra_row_run ne len img w c show ?thesis
    unfolding row by simp
qed

lemma collect_features_walk:
  "is_tag n \<Longrightarrow>
   collect_features (Some (n, sibs)) =
     map (\<lambda>m. strip (drop 2 (get_text m)))
       (takeWhile (\<lambda>m. tag_name m \<noteq> ascii ''label'') (filter is_tag (n # sibs)))"
proof (induction sibs arbitrary: n)
  case Nil
  then show ?case
    by (simp add: collect_features.simps(2) find_next_sibling_def)
next
  case (Cons x xs)
  show ?case
  proof (cases "is_tag x")
    case True
    from Cons.IH [OF True] Cons.prems True show ?thesis
      by (simp add: collect_features.simps(2) [of "(n, x # xs)"] find_next_sibling_def any_tag_is_tag)
  next
    case False
    have "collect_features (Some (n, x # xs)) = collect_features (Some (n, xs))"
      using False
      by (simp add: collect_features.simps(2) [of "(n, x # xs)"] collect_features.simps(2) [of "(n, xs)"]
          find_next_sibling_def any_tag_is_tag)
    with Cons.IH [OF Cons.prems] Cons.prems False show ?thesis
      by simp
  qed
qed

text \<open>
  Claim C5, as amended. For every feature-group label that has a following sibling tag,
  the parser starts at that sibling when it is a \<open>div\<close>, else at the first \<open>div\<close> inside
  it, else at the first later \<open>div\<close> sibling of the label, wherever that is. From the start
  it walks forward through the sibling tags up to the next \<open>label\<close> tag, takes of each
  the text without its first two characters and with the white space at both ends
  stripped, and stores the texts joined with \<open>", "\<close> under the label's text. When no
  start is found the field is the empty string, not \<open>None\<close>; a label followed by the two
  values \<open>xxA\<close> and \<open>xxB\<close> gets \<open>"A, B"\<close>.
\<close>

theorem feature_group_walk:
  "find_next_sibling any_tag label = Some next_sibling \<Longrightarrow>
   feature_div =
     (if tag_name (fst next_sibling) = ascii ''div'' then Some next_sibling
      else (case find_one tag_div (children (fst next_sibling)) of
              Some d \<Rightarrow> Some d
            | None \<Rightarrow> find_next_sibling tag_div label)) \<Longrightarrow>
   features_loop (label # labels) target =
     features_loop labels
       (setitem (get_text (fst label))
          (Some (str_join (ascii '', '') (collect_features feature_div))) target)
   \<and> collect_features feature_div =
       (case feature_div of
          None \<Rightarrow> []
        | Some d \<Rightarrow>
            map (\<lambda>m. strip (drop 2 (get_text m)))
              (takeWhile (\<lambda>m. tag_name m \<noteq> ascii ''label'') (filter is_tag (fst d # snd d))))
   \<and> (feature_div = None \<longrightarrow>
        features_loop (label # labels) target =
          features_loop labels (setitem (get_text (fst label)) (Some []) target))"
proof -
  assume nxt: "find_next_sibling any_tag label = Some next_sibling"
    and fd: "feature_div =
     (if tag_name (fst next_sibling) = ascii ''div'' then Some next_sibling
      else (case find_one tag_div (children (fst next_sibling)) of
              Some d \<Rightarrow> Some d
            | None \<Rightarrow> find_next_sibling tag_div label))"
  have start: "feature_start label = Inr feature_div"
    by (simp add: feature_start_def nxt fd Let_def split: option.splits)
  have step: "features_loop (label # labels) target =
     features_loop labels
       (setitem (get_text (fst label))
          (Some (str_join (ascii '', '') (collect_features feature_div))) target)"
    by (simp add: start Let_def)
  have tags: "is_tag (fst d)" if "feature_div = Some d" for d
  proof -
    from nxt have a: "is_tag (fst next_sibling)"
      by (auto simp: find_next_sibling_def dest: next_sibling_where_is_tag)
    from that fd a show ?thesis
      by (auto simp: find_next_sibling_def split: if_splits option.splits
          dest: next_sibling_where_is_tag find_is_tag)
  qed
  have walk: "collect_features feature_div =
       (case feature_div of
          None \<Rightarrow> []
        | Some d \<Rightarrow>
            map (\<lambda>m. strip (drop 2 (get_text m)))
              (takeWhile (\<lambda>m. tag_name m \<noteq> ascii ''label'') (filter is_tag (fst d # snd d))))"
  proof (cases feature_div)
    case None
    then show ?thesis by simp
  next
    case (Some d)
    from collect_features_walk [OF tags [OF Some], of "snd d"] Some show ?thesis
      by simp
  qed
  from step walk show ?thesis by auto
qed

theorem feature_group_witness:
  "features_loop [two_value_group] [] = Inr [(col_Comfort_features, Some (ascii ''A, B''))]"
proof -
  have nxt: "find_next_sibling any_tag two_value_group =
      Some (Tag (ascii ''div'') None None None [NavigableString (ascii ''xxA'')],
            [Tag (ascii ''div'') None None None [NavigableString (ascii ''xxB'')]])"
    by (simp add: two_value_group_def dom_defs)
  have fd: "Some (Tag (ascii ''div'') None None None [NavigableString (ascii ''xxA'')],
            [Tag (ascii ''div'') None None None [NavigableString (ascii ''xxB'')]]) =
     (if tag_name (fst (Tag (ascii ''div'') None None None [NavigableString (ascii ''xxA'')],
            [Tag (ascii ''div'') None None None [NavigableString (ascii ''xxB'')]])) = ascii ''div''
      then Some (Tag (ascii ''div'') None None None [NavigableString (ascii ''xxA'')],
            [Tag (ascii ''div'') None None None [NavigableString (ascii ''xxB'')]])
      else (case find_one tag_div (children (fst (Tag (ascii ''div'') None None None [NavigableString (ascii ''xxA'')],
            [Tag (ascii ''div'') None None None [NavigableString (ascii ''xxB'')]]))) of
              Some d \<Rightarrow> Some d
            | None \<Rightarrow> find_next_sibling tag_div two_value_group))"
    by simp
  from feature_group_walk [OF nxt fd, of "[]" "[]"] show ?thesis
    by (simp add: two_value_group_def ascii_def strip_def isspace_def setitem_def)
qed

text \<open>
  The claim as stated fails on a label that is directly followed by the next label: the
  first group has no value of its own, yet it is given the value of the second group
  (and the blank after \<open>A\<close> is stripped as well).
\<close>

theorem feature_group_counterexample:
  "parse_additional_car_features (Some empty_group_page) [] =
     Inr [(col_Safety_features, Some (ascii ''A'')), (col_Comfort_features, Some (ascii ''A''))]"
  by (simp add: parse_additional_car_features_def empty_group_page_def dom_defs feature_start_def
      collect_features.simps ascii_def strip_def isspace_def setitem_def Let_def column_names)

section \<open>Properties of the Worker\<close>

lemma get_page_loop_navigations:
  "navigations (snd (get_page_loop e url attempts w)) = navigations w"
  by (induction attempts arbitrary: w) (auto simp: Let_def split: response.splits)

lemma get_page_navigations: "navigations (snd (get_page e url w)) = navigations w"
  unfolding get_page_def by (rule get_page_loop_navigations)

lemma scrape_offer_data_navigations:
  "navigations (snd (snd (scrape_offer_data e make' model offer_url st))) = navigations (snd st)"
  using get_page_navigations [of e offer_url "snd st"]
  by (auto simp: scrape_offer_data_def split: prod.splits sum.splits)

lemma scrape_offers_navigations:
  "navigations (snd (snd (scrape_offers e make' model offer_links st))) = navigations (snd st)"
proof (induction offer_links arbitrary: st)
  case Nil
  show ?case by simp
next
  case (Cons link offer_links)
  obtain r df w where one: "scrape_offer_data e make' model link st = (r, df, w)"
    by (cases "scrape_offer_data e make' model link st") auto
  with scrape_offer_data_navigations [of e make' model link st]
  have w: "navigations w = navigations (snd st)" by simp
  show ?case
  proof (cases r)
    case None
    with one Cons.IH [of "(df, w)"] w show ?thesis by simp
  next
    case (Some err)
    with one w show ?thesis by simp
  qed
qed

lemma pages_loop_navigations:
  assumes "pages_loop e make' model current_page_soup st = Some y"
  shows "navigations (snd (snd y)) = navigations (snd st)"
proof (rule pages_loop.raw_induct
    [where P = "\<lambda>e make' model current_page_soup st y. navigations (snd (snd y)) = navigations (snd st)",
      OF _ assms], goal_cases)
  case (1 f e make' model current_page_soup st y)
  show ?case
  proof (cases current_page_soup)
    case None
    with 1(2) show ?thesis by auto
  next
    case (Some doc)
    define r where "r = scrape_offers e make' model
        (List.map_filter (\<lambda>tag. href_of (fst tag)) (find_all is_offer_link doc)) st"
    define cur where "cur = find_one (matches (Some (ascii ''a'')) (Some (ascii ''saveSlink selected'')) None) doc"
    have rn: "navigations (snd (snd r)) = navigations (snd st)"
      unfolding r_def by (rule scrape_offers_navigations)
    show ?thesis
    proof (cases "fst r")
      case (Some err)
      with 1(2) \<open>current_page_soup = Some doc\<close> have "y = r"
        by (simp add: Let_def r_def)
      with rn show ?thesis by simp
    next
      case None
      show ?thesis
      proof (cases "has_next_page cur")
        case (Inl err)
        with 1(2) \<open>current_page_soup = Some doc\<close> None have "y = (Some err, snd r)"
          by (simp add: Let_def r_def cur_def)
        with rn show ?thesis by simp
      next
        case (Inr has_next)
        show ?thesis
        proof (cases has_next)
          case False
          with 1(2) \<open>current_page_soup = Some doc\<close> None Inr have "y = (None, snd r)"
            by (simp add: Let_def r_def cur_def)
          with rn show ?thesis by simp
        next
          case True
          show ?thesis
          proof (cases "next_page_href cur")
            case (Inl err)
            with 1(2) \<open>current_page_soup = Some doc\<close> None Inr True have "y = (Some err, snd r)"
              by (simp add: Let_def r_def cur_def)
            with rn show ?thesis by simp
          next
            case url: (Inr url)
            define p where "p = get_page e url (snd (snd r))"
            have pn: "navigations (snd p) = navigations (snd st)"
              using rn by (simp add: p_def get_page_navigations)
            show ?thesis
            proof (cases "fst p")
              case (Inl err)
              with 1(2) \<open>current_page_soup = Some doc\<close> None Inr True url
              have "y = (Some err, fst (snd r), snd p)"
                by (simp add: Let_def r_def cur_def p_def)
              with pn show ?thesis by simp
            next
              case next_soup: (Inr next_soup)
              with 1(2) \<open>current_page_soup = Some doc\<close> None Inr True url
              have "f e make' model next_soup (fst (snd r), snd p) = Some y"
                by (simp add: Let_def r_def cur_def p_def)
              from 1(1) [OF this] pn show ?thesis by simp
            qed
          qed
        qed
      qed
    qed
  qed
qed

lemma scrape_model_navigations:
  "scrape_model e make' model st = Some y \<Longrightarrow>
   navigations (snd (snd y)) = navigations (snd st) @ [(make', model)]"
proof -
  assume a: "scrape_model e make' model st = Some y"
  define w1 where "w1 = (snd st)\<lparr>navigations := navigations (snd st) @ [(make', model)]\<rparr>"
  show ?thesis
  proof (cases "browser e (length (navigations (snd st))) make' model")
    case (Inl err)
    with a show ?thesis by (auto simp: scrape_model_def Let_def)
  next
    case (Inr current_url)
    define p where "p = get_page e (drop 6 current_url) w1"
    have pn: "navigations (snd p) = navigations (snd st) @ [(make', model)]"
      by (simp add: p_def get_page_navigations w1_def)
    show ?thesis
    proof (cases "fst p")
      case (Inl err)
      with a Inr pn show ?thesis
        by (auto simp: scrape_model_def Let_def p_def w1_def)
    next
      case soup: (Inr current_page_soup)
      with a Inr have "pages_loop e make' model current_page_soup (fst st, snd p) = Some y"
        by (simp add: scrape_model_def Let_def p_def w1_def)
      from pages_loop_navigations [OF this] pn show ?thesis by simp
    qed
  qed
qed

lemma failed_attempts_files:
  "failed_attempts e make' model k s = Some sk \<Longrightarrow> files sk = files s"
proof (induction k arbitrary: s)
  case 0
  then show ?case by simp
next
  case (Suc k)
  from Suc.prems obtain df w where
    "scrape_model e make' model (process_df s, outside s) = Some (Some WebDriverException, df, w)"
    "failed_attempts e make' model k \<lparr>process_df = df, files = files s, outside = w\<rparr> = Some sk"
    by (auto split: option.splits prod.splits if_splits)
  from Suc.IH [OF this(2)] show ?case by simp
qed

lemma retry_loop_after_failures:
  "failed_attempts e make' model k s = Some sk \<Longrightarrow> k \<le> length attempts \<Longrightarrow>
   retry_loop e pid make' model attempts s = retry_loop e pid make' model (drop k attempts) sk"
proof (induction k arbitrary: s attempts)
  case 0
  then show ?case by simp
next
  case (Suc k)
  from Suc.prems(2) obtain i rest where a: "attempts = i # rest" and len: "k \<le> length rest"
    by (cases attempts) auto
  from Suc.prems(1) obtain df w where
    one: "scrape_model e make' model (process_df s, outside s) = Some (Some WebDriverException, df, w)"
    and rest: "failed_attempts e make' model k \<lparr>process_df = df, files = files s, outside = w\<rparr> = Some sk"
    by (auto split: option.splits prod.splits if_splits)
  from Suc.IH [OF rest len] one a show ?case by simp
qed

lemma retry_loop_navigations:
  "retry_loop e pid make' model attempts s = Some (r, s') \<Longrightarrow>
   \<exists>k\<le>length attempts. (attempts \<noteq> [] \<longrightarrow> 1 \<le> k)
      \<and> navigations (outside s') = navigations (outside s) @ replicate k (make', model)"
proof (induction attempts arbitrary: s)
  case Nil
  then show ?case by simp
next
  case (Cons i attempts)
  from Cons.prems obtain res df w where
    one: "scrape_model e make' model (process_df s, outside s) = Some (res, df, w)"
    by (cases "scrape_model e make' model (process_df s, outside s)") auto
  from scrape_model_navigations [OF one]
  have w: "navigations w = navigations (outside s) @ [(make', model)]" by simp
  show ?case
  proof (cases "res = Some WebDriverException")
    case True
    with Cons.prems one have
      "retry_loop e pid make' model attempts \<lparr>process_df = df, files = files s, outside = w\<rparr> = Some (r, s')"
      by simp
    from Cons.IH [OF this] obtain k where k: "k \<le> length attempts"
      "navigations (outside s') = navigations w @ replicate k (make', model)"
      by auto
    with w have "navigations (outside s') = navigations (outside s) @ replicate (Suc k) (make', model)"
      by simp
    with k(1) show ?thesis
      by (intro exI [of _ "Suc k"]) simp
  next
    case False
    with Cons.prems one have "outside s' = w"
      by (cases res) (auto split: if_splits)
    with w have "navigations (outside s') = navigations (outside s) @ replicate 1 (make', model)"
      by simp
    then show ?thesis
      by (intro exI [of _ 1]) simp
  qed
qed

text \<open>
  Claim C3. For every combination of a worker's chunk the scrape routine is attempted at
  most three times (each attempt is one navigation of the browser to the combination,
  and between one and three are made). An attempt is repeated only after it raised
  \<open>WebDriverException\<close>. After an attempt that raises nothing the loop stops, the batch is
  written to the worker's partial file \<open>./temp/partial-<pid>.csv\<close>, whose content becomes
  the lines it had (none when it did not exist), then the header line when no file
  \<open>./output/partial-<pid>.csv\<close> exists, then the rows of the batch; the batch in memory
  becomes empty and the worker goes on with the next combination. After three attempts
  that raised \<open>WebDriverException\<close> the combination is given up and the worker goes on
  with the next combination, raising nothing. An exception of another kind is not
  retried.
\<close>

theorem worker_retry_policy:
  "(\<forall>k sk df w. k < 3 \<and> failed_attempts e make' model k s = Some sk
        \<and> scrape_model e make' model (process_df sk, outside sk) = Some (None, df, w)
      \<longrightarrow> retry_loop e pid make' model [0, 1, 2] s =
            Some (None,
              \<lparr>process_df = [],
               files = (files s)(TempPartial pid \<mapsto>
                 (case files s (TempPartial pid) of None \<Rightarrow> [] | Some old \<Rightarrow> old)
                 @ (if files s (OutputPartial pid) = None then [map Some columns] else [])
                 @ df),
               outside = w\<rparr>)
          \<and> models_loop e pid ((make', model) # models) s =
            models_loop e pid models
              \<lparr>process_df = [],
               files = (files s)(TempPartial pid \<mapsto>
                 (case files s (TempPartial pid) of None \<Rightarrow> [] | Some old \<Rightarrow> old)
                 @ (if files s (OutputPartial pid) = None then [map Some columns] else [])
                 @ df),
               outside = w\<rparr>)
   \<and> (\<forall>s3. failed_attempts e make' model 3 s = Some s3
      \<longrightarrow> retry_loop e pid make' model [0, 1, 2] s = Some (None, s3)
          \<and> models_loop e pid ((make', model) # models) s = models_loop e pid models s3)
   \<and> (\<forall>k sk err df w. k < 3 \<and> failed_attempts e make' model k s = Some sk
        \<and> scrape_model e make' model (process_df sk, outside sk) = Some (Some err, df, w)
        \<and> err \<noteq> WebDriverException
      \<longrightarrow> retry_loop e pid make' model [0, 1, 2] s =
            Some (Some err, \<lparr>process_df = df, files = files s, outside = w\<rparr>)
          \<and> models_loop e pid ((make', model) # models) s =
            Some (Some err, \<lparr>process_df = df, files = files s, outside = w\<rparr>))
   \<and> (\<forall>r s'. retry_loop e pid make' model [0, 1, 2] s = Some (r, s')
      \<longrightarrow> (\<exists>k. 1 \<le> k \<and> k \<le> 3
            \<and> navigations (outside s') = navigations (outside s) @ replicate k (make', model)))"
proof (intro conjI allI impI)
  fix k sk df w
  assume h: "k < 3 \<and> failed_attempts e make' model k s = Some sk
        \<and> scrape_model e make' model (process_df sk, outside sk) = Some (None, df, w)"
  then have len: "k \<le> length [0, 1, 2 :: nat]" by simp
  from h obtain i rest where d: "drop k [0, 1, 2 :: nat] = i # rest"
    by (cases "drop k [0, 1, 2 :: nat]") auto
  from h have f: "files sk = files s" by (auto dest: failed_attempts_files)
  from h retry_loop_after_failures [OF _ len, of e make' model s sk pid]
  have "retry_loop e pid make' model [0, 1, 2] s = retry_loop e pid make' model (i # rest) sk"
    by (simp only: d)
  with h f show r: "retry_loop e pid make' model [0, 1, 2] s =
            Some (None,
              \<lparr>process_df = [],
               files = (files s)(TempPartial pid \<mapsto>
                 (case files s (TempPartial pid) of None \<Rightarrow> [] | Some old \<Rightarrow> old)
                 @ (if files s (OutputPartial pid) = None then [map Some columns] else [])
                 @ df),
               outside = w\<rparr>)"
    by (simp add: to_csv_append_def path_exists_def)
  then show "models_loop e pid ((make', model) # models) s =
            models_loop e pid models
              \<lparr>process_df = [],
               files = (files s)(TempPartial pid \<mapsto>
                 (case files s (TempPartial pid) of None \<Rightarrow> [] | Some old \<Rightarrow> old)
                 @ (if files s (OutputPartial pid) = None then [map Some columns] else [])
                 @ df),
               outside = w\<rparr>"
    by (simp del: retry_loop.simps)
next
  fix s3
  assume h: "failed_attempts e make' model 3 s = Some s3"
  have len: "(3::nat) \<le> length [0, 1, 2 :: nat]" by simp
  from retry_loop_after_failures [OF h len, of pid]
  show r: "retry_loop e pid make' model [0, 1, 2] s = Some (None, s3)"
    by simp
  then show "models_loop e pid ((make', model) # models) s = models_loop e pid models s3"
    by (simp del: retry_loop.simps)
next
  fix k sk err df w
  assume h: "k < 3 \<and> failed_attempts e make' model k s = Some sk
        \<and> scrape_model e make' model (process_df sk, outside sk) = Some (Some err, df, w)
        \<and> err \<noteq> WebDriverException"
  then have len: "k \<le> length [0, 1, 2 :: nat]" by simp
  from h obtain i rest where d: "drop k [0, 1, 2 :: nat] = i # rest"
    by (cases "drop k [0, 1, 2 :: nat]") auto
  from h have f: "files sk = files s" by (auto dest: failed_attempts_files)
  from h retry_loop_after_failures [OF _ len, of e make' model s sk pid]
  have "retry_loop e pid make' model [0, 1, 2] s = retry_loop e pid make' model (i # rest) sk"
    by (simp only: d)
  with h f show r: "retry_loop e pid make' model [0, 1, 2] s =
            Some (Some err, \<lparr>process_df = df, files = files s, outside = w\<rparr>)"
    by simp
  then show "models_loop e pid ((make', model) # models) s =
            Some (Some err, \<lparr>process_df = df, files = files s, outside = w\<rparr>)"
    by (simp del: retry_loop.simps)
next
  fix r s'
  assume "retry_loop e pid make' model [0, 1, 2] s = Some (r, s')"
  from retry_loop_navigations [OF this]
  show "\<exists>k. 1 \<le> k \<and> k \<le> 3
            \<and> navigations (outside s') = navigations (outside s) @ replicate k (make', model)"
    by auto
qed

lemma fill_plain_model:
  "fill_parsed_data (ascii ''Audi'') model (Some plain_offer_page) [(col_Color, Some (ascii ''Red''))]
    = Inr (setitem col_Model (Some (strip model)) (record_of (Some (ascii ''Red'')) col_Color))"
  by (simp add: fill_parsed_data_def plain_offer_page_def dom_defs ascii_def
      parse_additional_car_features_def fill_missing_columns_def keys_def
      setitem_def Let_def strip_def [of "[_, _, _, _, _, _, _, _, _]"] strip_def [of "[_, _, _, _]"]
      strip_def [of "[_, _, _, _, _, _, _, _]"] isspace_def record_of_def columns_def column_names)


lemma offer_scraped:
  "http e (length (requests w)) (ascii ''https:'' @ url) = Page plain_offer_page \<Longrightarrow>
   scrape_offer_data e (ascii ''Audi'') model url (df, w) =
     (None, df @ [offer_row model], w\<lparr>requests := requests w @ [ascii ''https:'' @ url]\<rparr>)"
  by (simp add: scrape_offer_data_def get_page_first_try parse_main_plain fill_plain_model
      append_row_def offer_row_def)

lemma site_offer:
  "scrape_offer_data (site_env k) (ascii ''Audi'') model
      (ascii ''//www.mobile.bg/pcgi/mobile.cgi?act=4&adv=1'') (df, w) =
     (None, df @ [offer_row model],
      w\<lparr>requests := requests w @ [ascii ''https://www.mobile.bg/pcgi/mobile.cgi?act=4&adv=1'']\<rparr>)"
proof -
  have "http (site_env k) (length (requests w))
          (ascii ''https:'' @ ascii ''//www.mobile.bg/pcgi/mobile.cgi?act=4&adv=1'') = Page plain_offer_page"
    by (simp add: site_env_def ascii_def)
  from offer_scraped [OF this] show ?thesis
    by (simp add: ascii_def)
qed

lemma results_page_links:
  "List.map_filter (\<lambda>tag. href_of (fst tag)) (find_all is_offer_link results_page) =
     [ascii ''//www.mobile.bg/pcgi/mobile.cgi?act=4&adv=1'']"
  by (simp add: results_page_def find_all_def is_offer_link_def startswith_def ascii_def
      List.map_filter_simps)

lemma results_page_last:
  "has_next_page (find_one (matches (Some (ascii ''a'')) (Some (ascii ''saveSlink selected'')) None)
      results_page) = Inr False"
  by (simp add: results_page_def has_next_page_def dom_defs ascii_def)

lemma site_pages:
  "pages_loop (site_env k) (ascii ''Audi'') model (Some results_page) (df, w) =
     Some (None, df @ [offer_row model],
       w\<lparr>requests := requests w @ [ascii ''https://www.mobile.bg/pcgi/mobile.cgi?act=4&adv=1'']\<rparr>)"
  by (subst pages_loop.simps)
    (simp add: results_page_links results_page_last site_offer Let_def)

lemma site_navigation_fails:
  "length (navigations w) < k \<Longrightarrow>
   scrape_model (site_env k) make' model (df, w) =
     Some (Some WebDriverException, df, w\<lparr>navigations := navigations w @ [(make', model)]\<rparr>)"
  by (simp add: scrape_model_def site_env_def Let_def)

lemma site_scrape_model:
  "k \<le> length (navigations w) \<Longrightarrow>
   scrape_model (site_env k) (ascii ''Audi'') model (df, w) =
     Some (None, df @ [offer_row model],
       \<lparr>requests = requests w @ [ascii ''https://host/results'',
                      ascii ''https://www.mobile.bg/pcgi/mobile.cgi?act=4&adv=1''],
        navigations = navigations w @ [(ascii ''Audi'', model)]\<rparr>)"
proof -
  assume k: "k \<le> length (navigations w)"
  define w1 where "w1 = w\<lparr>navigations := navigations w @ [(ascii ''Audi'', model)]\<rparr>"
  have "http (site_env k) (length (requests w1)) (ascii ''https:'' @ drop 6 (ascii ''https://host/results'')) = Page results_page"
    by (simp add: site_env_def ascii_def)
  from get_page_first_try [OF this]
  have page: "get_page (site_env k) (drop 6 (ascii ''https://host/results'')) w1 =
      (Inr (Some results_page), w1\<lparr>requests := requests w1 @ [ascii ''https://host/results'']\<rparr>)"
    by (simp add: ascii_def)
  have b: "browser (site_env k) (length (navigations w)) (ascii ''Audi'') model = Inr (ascii ''https://host/results'')"
    using k by (simp add: site_env_def)
  show ?thesis
    by (simp add: scrape_model_def Let_def b w1_def [symmetric] page site_pages) (simp add: w1_def)
qed

lemma offer_row_explicit: "offer_row model = plain_row (strip model)"
  by (simp add: offer_row_def plain_row_def value_at_def setitem_def record_of_def columns_def
      column_names ascii_def)

lemma strip_A4: "strip (ascii ''A4'') = ascii ''A4''"
  by (simp add: strip_def isspace_def ascii_def)

theorem worker_retry_witness:
  "retry_loop (site_env 2) 7 (ascii ''Audi'') (ascii ''A4'') [0, 1, 2] fresh_worker =
     Some (None,
       \<lparr>process_df = [],
        files = (\<lambda>p. None)(TempPartial 7 \<mapsto> [map Some columns, plain_row (ascii ''A4'')]),
        outside =
          \<lparr>requests = [ascii ''https://host/results'',
                       ascii ''https://www.mobile.bg/pcgi/mobile.cgi?act=4&adv=1''],
           navigations = [(ascii ''Audi'', ascii ''A4''), (ascii ''Audi'', ascii ''A4''),
                          (ascii ''Audi'', ascii ''A4'')]\<rparr>\<rparr>)"
proof -
  define s2 :: worker_state where
    "s2 = \<lparr>process_df = [], files = (\<lambda>p. None),
           outside = \<lparr>requests = [], navigations = [(ascii ''Audi'', ascii ''A4''), (ascii ''Audi'', ascii ''A4'')]\<rparr>\<rparr>"
  have failed: "failed_attempts (site_env 2) (ascii ''Audi'') (ascii ''A4'') 2 fresh_worker = Some s2"
    by (simp add: eval_nat_numeral fresh_worker_def start_world_def site_navigation_fails s2_def)
  have "2 \<le> length (navigations (outside s2))" by (simp add: s2_def)
  from site_scrape_model [OF this]
  have third: "scrape_model (site_env 2) (ascii ''Audi'') (ascii ''A4'') (process_df s2, outside s2) =
     Some (None, [offer_row (ascii ''A4'')],
       \<lparr>requests = [ascii ''https://host/results'',
                    ascii ''https://www.mobile.bg/pcgi/mobile.cgi?act=4&adv=1''],
        navigations = [(ascii ''Audi'', ascii ''A4''), (ascii ''Audi'', ascii ''A4''),
                       (ascii ''Audi'', ascii ''A4'')]\<rparr>)"
    by (simp add: s2_def)
  note t = worker_retry_policy [where e = "site_env 2" and make' = "ascii ''Audi''" and model = "ascii ''A4''"
      and s = fresh_worker and pid = 7 and models = "[]"]
  from t [THEN conjunct1, rule_format, of 2 s2] failed third
  show ?thesis
    by (simp add: fresh_worker_def offer_row_explicit strip_A4)
qed

lemma retry_loop_first_success:
  "scrape_model e make' model (process_df s, outside s) = Some (None, df, w) \<Longrightarrow>
   retry_loop e pid make' model [0, 1, 2] s =
     Some (None,
       \<lparr>process_df = [],
        files = to_csv_append df (TempPartial pid) (\<not> path_exists (files s) (OutputPartial pid)) (files s),
        outside = w\<rparr>)"
  by simp

lemma models_loop_step:
  "retry_loop e pid make' model [0, 1, 2] s = Some (None, s1) \<Longrightarrow>
   models_loop e pid ((make', model) # models) s = models_loop e pid models s1"
  by (simp del: retry_loop.simps)

text \<open>
  Claim C9 (the code departs from it). The worker writes to \<open>./temp/partial-<pid>.csv\<close>
  but asks for a header when \<open>./output/partial-<pid>.csv\<close> does not exist, a file that
  nothing creates. On a worker whose two combinations both succeed, the partial file
  therefore holds the header line twice: once before the rows of each flush.
\<close>

theorem partial_header_repeated:
  "scrape_worker (site_env 0) 7 [(ascii ''Audi'', ascii ''A4''), (ascii ''Audi'', ascii ''A6'')]
      (\<lambda>p. None) start_world =
     Some (None,
       \<lparr>process_df = [],
        files = (\<lambda>p. None)(TempPartial 7 \<mapsto>
                  [map Some columns, offer_row (ascii ''A4''),
                   map Some columns, offer_row (ascii ''A6'')]),
        outside =
          \<lparr>requests = [ascii ''https://host/results'',
                       ascii ''https://www.mobile.bg/pcgi/mobile.cgi?act=4&adv=1'',
                       ascii ''https://host/results'',
                       ascii ''https://www.mobile.bg/pcgi/mobile.cgi?act=4&adv=1''],
           navigations = [(ascii ''Audi'', ascii ''A4''), (ascii ''Audi'', ascii ''A6'')]\<rparr>\<rparr>)"
proof -
  define s1 :: worker_state where
    "s1 = \<lparr>process_df = [],
           files = (\<lambda>p. None)(TempPartial 7 \<mapsto> [map Some columns, offer_row (ascii ''A4'')]),
           outside = \<lparr>requests = [ascii ''https://host/results'',
                       ascii ''https://www.mobile.bg/pcgi/mobile.cgi?act=4&adv=1''],
                      navigations = [(ascii ''Audi'', ascii ''A4'')]\<rparr>\<rparr>"
  have first: "retry_loop (site_env 0) 7 (ascii ''Audi'') (ascii ''A4'') [0, 1, 2] fresh_worker = Some (None, s1)"
    by (subst retry_loop_first_success [OF site_scrape_model])
      (simp_all add: fresh_worker_def start_world_def s1_def to_csv_append_def path_exists_def)
  have second: "retry_loop (site_env 0) 7 (ascii ''Audi'') (ascii ''A6'') [0, 1, 2] s1 =
     Some (None,
       \<lparr>process_df = [],
        files = (\<lambda>p. None)(TempPartial 7 \<mapsto>
                  [map Some columns, offer_row (ascii ''A4''),
                   map Some columns, offer_row (ascii ''A6'')]),
        outside =
          \<lparr>requests = [ascii ''https://host/results'',
                       ascii ''https://www.mobile.bg/pcgi/mobile.cgi?act=4&adv=1'',
                       ascii ''https://host/results'',
                       ascii ''https://www.mobile.bg/pcgi/mobile.cgi?act=4&adv=1''],
           navigations = [(ascii ''Audi'', ascii ''A4''), (ascii ''Audi'', ascii ''A6'')]\<rparr>\<rparr>)"
    by (subst retry_loop_first_success [OF site_scrape_model])
      (simp_all add: s1_def to_csv_append_def path_exists_def)
  show ?thesis
    unfolding scrape_worker_def fresh_worker_def [symmetric]
    by (simp only: models_loop_step [OF first] models_loop_step [OF second] models_loop.simps(1))
qed

section \<open>Properties of the merge\<close>

lemma py_remove_index_raises:
  "py_remove (PandasIndex cols) x = Inl AttributeError"
  by (simp add: py_remove_def)

lemma py_remove_list_raises:
  "py_remove (PyList (map Str cols)) (StrList xs) = Inl ValueError"
  by (auto simp: py_remove_def)

lemma english_columns_length: "length english_columns = 26"
  by (simp add: english_columns_def)

text \<open>
  Claim C1 (the code departs from it). Line 297 calls \<open>remove(['Model', 'Views'])\<close> on
  the copy of the frame's column \<open>Index\<close>, which has no such method, so the call raises
  \<open>AttributeError\<close> before \<open>drop_duplicates\<close> runs (on a plain list it would raise too,
  \<open>py_remove_list_raises\<close>: the two-element list is no member of the columns). For
  every content of the output file, lines 292-300 end in an exception and leave the file
  as it was. A file with the same row twice keeps both rows.
\<close>

theorem merge_dedup_raises:
  "(\<exists>err. merge_dedup fs = (Some err, fs))
   \<and> merge_dedup dup_files = (Some AttributeError, dup_files)
   \<and> dup_files OutputFile = Some [map Some columns, offer_row (ascii ''A4''), offer_row (ascii ''A4'')]"
proof -
  have always: "\<exists>err. merge_dedup fs = (Some err, fs)"
    by (auto simp: merge_dedup_def py_remove_index_raises split: option.splits list.splits)
  have "merge_dedup dup_files = (Some AttributeError, dup_files)"
    by (simp add: merge_dedup_def py_remove_index_raises dup_files_def columns_length
        english_columns_length)
  with always show ?thesis by (simp add: dup_files_def)
qed

section \<open>Properties of the Listing Paginator\<close>

lemma str_join_nonempty:
  "vs \<noteq> [] \<Longrightarrow> last vs \<noteq> [] \<Longrightarrow> str_join sep vs \<noteq> []"
  by (induction sep vs rule: str_join.induct) auto

lemma last_str_join:
  "vs \<noteq> [] \<Longrightarrow> last vs \<noteq> [] \<Longrightarrow> last (str_join sep vs) = last (last vs)"
proof (induction sep vs rule: str_join.induct)
  case (1 sep)
  then show ?case by simp
next
  case (2 sep p)
  then show ?case by simp
next
  case (3 sep p q ps)
  from "3.prems" have l: "last (q # ps) \<noteq> []" by simp
  from str_join_nonempty [OF _ l, of sep] have ne: "str_join sep (q # ps) \<noteq> []" by simp
  from "3.IH" l have "last (str_join sep (q # ps)) = last (last (q # ps))" by simp
  with ne show ?case by simp
qed

lemma trailing_blank_never_matches:
  assumes "list_all (\<lambda>v. v \<noteq> [] \<and> \<not> list_ex isspace v) vs"
  shows "\<not> class_matches (ascii ''saveSlink '') (Some vs)"
proof
  assume "class_matches (ascii ''saveSlink '') (Some vs)"
  then consider (member) "ascii ''saveSlink '' \<in> set vs"
    | (whole) "ascii ''saveSlink '' = str_join (ascii '' '') vs"
    by (auto simp: class_matches_def)
  then show False
  proof cases
    case member
    with assms have "\<not> list_ex isspace (ascii ''saveSlink '')"
      by (auto simp: list_all_iff)
    then show False by (simp add: ascii_def isspace_def)
  next
    case whole
    have ne: "vs \<noteq> []"
    proof
      assume "vs = []"
      with whole show False by (simp add: ascii_def)
    qed
    then have l: "last vs \<in> set vs" by simp
    with assms have lv: "last vs \<noteq> []" "\<not> list_ex isspace (last vs)"
      by (auto simp: list_all_iff)
    from lv(1) have "last (last vs) \<in> set (last vs)" by simp
    with lv(2) have nosp: "\<not> isspace (last (last vs))"
      by (auto simp: list_ex_iff)
    from last_str_join [OF ne lv(1), of "ascii '' ''"] whole
    have "last (last vs) = last (ascii ''saveSlink '')" by simp
    also have "\<dots> = 32" by (simp add: ascii_def)
    finally show False using nosp by (simp add: isspace_def)
  qed
qed

lemma parser_built_no_page_link: "parser_built n \<Longrightarrow> \<not> page_link n"
  by (cases n) (auto simp: page_link_def matches_def class_matches_def
      dest: trailing_blank_never_matches split: option.splits)

lemma next_sibling_where_None:
  "\<forall>x\<in>set sibs. \<not> P x \<Longrightarrow> next_sibling_where P sibs = None"
  by (induction sibs) auto

lemma has_next_page_parser_built:
  "list_all parser_built (snd el) \<Longrightarrow> has_next_page (Some el) = Inr False"
proof -
  assume "list_all parser_built (snd el)"
  then have "\<forall>x\<in>set (snd el). \<not> page_link x"
    by (auto simp: list_all_iff dest: parser_built_no_page_link)
  from next_sibling_where_None [OF this] show ?thesis
    by (simp add: has_next_page_def find_next_sibling_def)
qed

lemma descendants_parser_built:
  "list_all parser_built doc \<Longrightarrow> el \<in> set (descendants doc) \<Longrightarrow> list_all parser_built (snd el)"
  by (induction doc rule: descendants.induct) auto

lemma find_one_parser_built:
  "list_all parser_built doc \<Longrightarrow> find_one P doc = Some el \<Longrightarrow> list_all parser_built (snd el)"
proof -
  assume wf: "list_all parser_built doc" and "find_one P doc = Some el"
  then have "el \<in> set (find_all P doc)"
    by (auto simp: find_one_def split: list.splits)
  then have "el \<in> set (descendants doc)" by (simp add: find_all_def)
  from descendants_parser_built [OF wf this] show ?thesis .
qed

lemma paginator_single_page:
  assumes "list_all parser_built doc"
  shows "pages_loop e make' model (Some doc) st =
     (let r = scrape_offers e make' model
                (List.map_filter (\<lambda>tag. href_of (fst tag)) (find_all is_offer_link doc)) st
      in if fst r \<noteq> None then Some r
         else if find_one (matches (Some (ascii ''a'')) (Some (ascii ''saveSlink selected'')) None) doc = None
              then Some (Some AttributeError, snd r)
              else Some (None, snd r))"
proof -
  define cur where "cur = find_one (matches (Some (ascii ''a'')) (Some (ascii ''saveSlink selected'')) None) doc"
  have h: "has_next_page cur = (if cur = None then Inl AttributeError else Inr False)"
  proof (cases cur)
    case None
    then show ?thesis by (simp add: has_next_page_def)
  next
    case (Some el)
    with find_one_parser_built [OF assms, of _ el] have "list_all parser_built (snd el)"
      by (simp add: cur_def)
    from has_next_page_parser_built [OF this] Some show ?thesis by simp
  qed
  show ?thesis
    by (subst pages_loop.simps) (auto simp: Let_def cur_def [symmetric] h split: option.splits)
qed

lemma result_page_built: "list_all parser_built page_one"
  by (simp add: page_one_def result_page_def pagination_def ascii_def isspace_def)

lemma result_page_links:
  "List.map_filter (\<lambda>tag. href_of (fst tag)) (find_all is_offer_link page_one) =
     [ascii ''//www.mobile.bg/pcgi/mobile.cgi?act=4&adv=1'']"
  by (simp add: page_one_def result_page_def pagination_def page_url_def find_all_def is_offer_link_def
      startswith_def ascii_def List.map_filter_simps)

lemma result_page_indicator:
  "find_one (matches (Some (ascii ''a'')) (Some (ascii ''saveSlink selected'')) None) page_one =
     Some (Tag (ascii ''a'') (Some [ascii ''saveSlink'', ascii ''selected'']) None None [NavigableString (ascii ''1'')],
           [Tag (ascii ''a'') (Some [ascii ''saveSlink'']) None (Some (ascii ''//host/results?p=2'')) [NavigableString (ascii ''2'')],
            Tag (ascii ''a'') (Some [ascii ''saveSlink'']) None (Some (ascii ''//host/results?p=3'')) [NavigableString (ascii ''3'')]])"
  by (simp add: page_one_def result_page_def pagination_def page_url_def dom_defs ascii_def)

text \<open>
  Claim C7 (the code departs from it). \<open>has_next_page\<close> searches for a sibling with the
  class \<open>'saveSlink '\<close>, a value with a blank at its end, which no class value built by
  the parser equals (\<open>has_next_page_parser_built\<close>), so the walk ends after the first
  page of every result set (\<open>paginator_single_page\<close>). On the three-page fixture the
  current-page indicator of page 1 is followed by the link to page 2, which the site
  serves, yet \<open>has_next_page\<close> is false and \<open>scrape_model\<close> returns after the listing
  of page 1: the only requests are for page 1 and its one offer.
\<close>

theorem paginator_stops_after_first_page:
  "scrape_model three_page_env (ascii ''Audi'') (ascii ''A4'') ([], start_world) =
     Some (None, [offer_row (ascii ''A4'')],
       \<lparr>requests = [ascii ''https://host/results'',
                    ascii ''https://www.mobile.bg/pcgi/mobile.cgi?act=4&adv=1''],
        navigations = [(ascii ''Audi'', ascii ''A4'')]\<rparr>)
   \<and> next_page_href
        (find_one (matches (Some (ascii ''a'')) (Some (ascii ''saveSlink selected'')) None) page_one)
       = Inr (ascii ''//host/results?p=2'')
   \<and> http three_page_env 2 (ascii ''https://host/results?p=2'') = Page page_two
   \<and> has_next_page
        (find_one (matches (Some (ascii ''a'')) (Some (ascii ''saveSlink selected'')) None) page_one)
       = Inr False"
proof -
  define w1 where "w1 = start_world\<lparr>navigations := [(ascii ''Audi'', ascii ''A4'')]\<rparr>"
  define w2 where "w2 = w1\<lparr>requests := [ascii ''https://host/results'']\<rparr>"
  have "http three_page_env (length (requests w1)) (ascii ''https:'' @ drop 6 (ascii ''https://host/results'')) = Page page_one"
    by (simp add: three_page_env_def ascii_def)
  from get_page_first_try [OF this]
  have page: "get_page three_page_env (drop 6 (ascii ''https://host/results'')) w1 = (Inr (Some page_one), w2)"
    by (simp add: ascii_def w1_def w2_def start_world_def)
  have "http three_page_env (length (requests w2))
          (ascii ''https:'' @ ascii ''//www.mobile.bg/pcgi/mobile.cgi?act=4&adv=1'') = Page plain_offer_page"
    by (simp add: three_page_env_def ascii_def page_url_def)
  from offer_scraped [OF this, of "ascii ''A4''" "[]"]
  have offer: "scrape_offer_data three_page_env (ascii ''Audi'') (ascii ''A4'')
        (ascii ''//www.mobile.bg/pcgi/mobile.cgi?act=4&adv=1'') ([], w2) =
      (None, [offer_row (ascii ''A4'')],
       w2\<lparr>requests := requests w2 @ [ascii ''https:'' @ ascii ''//www.mobile.bg/pcgi/mobile.cgi?act=4&adv=1'']\<rparr>)"
    by simp
  have loop: "pages_loop three_page_env (ascii ''Audi'') (ascii ''A4'') (Some page_one) ([], w2) =
      Some (None, [offer_row (ascii ''A4'')],
       w2\<lparr>requests := requests w2 @ [ascii ''https:'' @ ascii ''//www.mobile.bg/pcgi/mobile.cgi?act=4&adv=1'']\<rparr>)"
    by (simp add: paginator_single_page [OF result_page_built] result_page_links offer
        result_page_indicator Let_def)
  have b: "browser three_page_env (length (navigations start_world)) (ascii ''Audi'') (ascii ''A4'') =
      Inr (ascii ''https://host/results'')"
    by (simp add: three_page_env_def)
  have run: "scrape_model three_page_env (ascii ''Audi'') (ascii ''A4'') ([], start_world) =
     Some (None, [offer_row (ascii ''A4'')],
       \<lparr>requests = [ascii ''https://host/results'',
                    ascii ''https://www.mobile.bg/pcgi/mobile.cgi?act=4&adv=1''],
        navigations = [(ascii ''Audi'', ascii ''A4'')]\<rparr>)"
    using page loop
    by (simp add: scrape_model_def Let_def b)
      (simp add: w1_def w2_def start_world_def ascii_def)
  have nxt: "next_page_href
        (find_one (matches (Some (ascii ''a'')) (Some (ascii ''saveSlink selected'')) None) page_one)
       = Inr (ascii ''//host/results?p=2'')"
    unfolding result_page_indicator
    by (simp add: next_page_href_def find_next_sibling_def any_tag_def matches_def ascii_def)
  have served: "http three_page_env 2 (ascii ''https://host/results?p=2'') = Page page_two"
    by (simp add: three_page_env_def page_url_def ascii_def)
  have stop: "has_next_page
        (find_one (matches (Some (ascii ''a'')) (Some (ascii ''saveSlink selected'')) None) page_one)
       = Inr False"
    unfolding result_page_indicator
    by (simp add: has_next_page_def page_link_def find_next_sibling_def any_tag_def matches_def
        class_matches_def ascii_def)
  from run nxt served stop show ?thesis by simp
qed

end
